theory Spec2Isabelle
  imports Complex_Main "HOL-Library.Char_ord" "HOL-Library.List_Lexorder"
begin

section \<open>Text primitives of the scrapers\<close>

text \<open>
  A Python \<open>str\<close> is modelled as a \<open>string\<close>: ASCII characters are themselves, and
  the rupee sign U+20B9 is its three UTF-8 bytes. The character classes \<open>\d\<close>, \<open>\s\<close>
  and the case mapping are the ASCII ones (Python also knows non-ASCII digits, spaces
  and letters; texts using them are outside this model). A Python \<open>float\<close> is
  modelled as an exact \<open>real\<close>: binary rounding error, infinities and NaN are not
  represented.
\<close>

definition is_digit :: "char \<Rightarrow> bool" where
  "is_digit c \<longleftrightarrow> CHR ''0'' \<le> c \<and> c \<le> CHR ''9''"

definition is_space :: "char \<Rightarrow> bool" where
  "is_space c \<longleftrightarrow>
     c = CHR '' '' \<or> (CHR 0x09 \<le> c \<and> c \<le> CHR 0x0D) \<or> (CHR 0x1C \<le> c \<and> c \<le> CHR 0x1F)"

definition lower_char :: "char \<Rightarrow> char" where
  "lower_char c =
     (if CHR ''A'' \<le> c \<and> c \<le> CHR ''Z'' then char_of (of_char c + (32::nat)) else c)"

definition lower :: "string \<Rightarrow> string" where
  "lower s = map lower_char s"

definition remove_commas :: "string \<Rightarrow> string" where
  \<comment> \<open>\<open>s.replace(',', '')\<close>\<close>
  "remove_commas s = filter (\<lambda>c. c \<noteq> CHR '','') s"

definition strip :: "string \<Rightarrow> string" where
  "strip s = rev (dropWhile is_space (rev (dropWhile is_space s)))"

fun startswith :: "string \<Rightarrow> string \<Rightarrow> bool" where
  "startswith [] s = True"
| "startswith (p # ps) [] = False"
| "startswith (p # ps) (c # cs) = (p = c \<and> startswith ps cs)"

fun contains :: "string \<Rightarrow> string \<Rightarrow> bool" where
  \<comment> \<open>\<open>sub in s\<close>\<close>
  "contains sub [] = (sub = [])"
| "contains sub (c # cs) = (startswith sub (c # cs) \<or> contains sub cs)"

definition is_numch :: "char \<Rightarrow> bool" where
  \<comment> \<open>the class \<open>[\d.]\<close>\<close>
  "is_numch c \<longleftrightarrow> is_digit c \<or> c = CHR ''.''"

definition is_pricech :: "char \<Rightarrow> bool" where
  \<comment> \<open>the class \<open>[\d.,]\<close>\<close>
  "is_pricech c \<longleftrightarrow> is_digit c \<or> c = CHR ''.'' \<or> c = CHR '',''"

function findall_nums :: "string \<Rightarrow> string list" where
  \<comment> \<open>\<open>re.findall(r'[\d.]+', s)\<close>: the maximal runs of digits and dots, left to right\<close>
  "findall_nums [] = []"
| "findall_nums (c # cs) =
     (if is_numch c then takeWhile is_numch (c # cs) # findall_nums (dropWhile is_numch cs)
      else findall_nums cs)"
  by pat_completeness auto
termination
  by (relation "measure length") (auto simp: le_imp_less_Suc length_dropWhile_le)

definition digit_val :: "char \<Rightarrow> nat" where
  "digit_val c = of_char c - 48"

definition digits_val :: "string \<Rightarrow> nat" where
  "digits_val ds = foldl (\<lambda>n c. 10 * n + digit_val c) 0 ds"

datatype py_error = ValueError | KeyError | IndexError

definition py_float :: "string \<Rightarrow> py_error + real" where
  \<comment> \<open>\<open>float(s)\<close> on a text of digits and dots, the only texts the scrapers pass:
      digits with at most one dot and at least one digit; anything else raises.\<close>
  "py_float s =
     (let ip = takeWhile is_digit s; rest = dropWhile is_digit s
      in if rest = [] then (if ip = [] then Inl ValueError else Inr (real (digits_val ip)))
         else if hd rest = CHR ''.'' \<and> list_all is_digit (tl rest) \<and> (ip \<noteq> [] \<or> tl rest \<noteq> [])
         then Inr (real (digits_val ip) + real (digits_val (tl rest)) / 10 ^ length (tl rest))
         else Inl ValueError)"

definition round_half_even :: "real \<Rightarrow> int" where
  "round_half_even x =
     (let f = \<lfloor>x\<rfloor>; d = x - of_int f
      in if d < 1 / 2 then f else if 1 / 2 < d then f + 1 else if even f then f else f + 1)"

definition round2 :: "real \<Rightarrow> real" where
  \<comment> \<open>\<open>round(x, 2)\<close>\<close>
  "round2 x = of_int (round_half_even (x * 100)) / 100"

section \<open>The scrapers' weight and price parsers\<close>

text \<open>
  \<open>_normalize_weight\<close> is the same text in the Zepto, Blinkit and BBNow scrapers (Blinkit
  also logs the cleaned text). The body of its \<open>try\<close> is \<open>normalize_weight_try\<close>; the
  \<open>except Exception\<close> handler logs and returns 0.0.
\<close>

definition weight_unit :: "string \<Rightarrow> string" where
  "weight_unit text =
     (if contains ''g'' text then ''g''
      else (if contains ''kg'' text then ''kg''
            else (if contains ''ml'' text then ''ml'' else '''')))"

definition normalize_weight_try :: "string \<Rightarrow> py_error + real" where
  "normalize_weight_try weight_text =
     (let text = strip (remove_commas (lower weight_text));
          nums = findall_nums text;
          unit = weight_unit text
      in if nums = [] then Inr 0
         else
           (case (if contains ''x'' text \<and> 2 \<le> length nums
                  then (case py_float (nums ! 0) of
                          Inl e \<Rightarrow> Inl e
                        | Inr count \<Rightarrow>
                            (case py_float (nums ! 1) of
                               Inl e \<Rightarrow> Inl e
                             | Inr each \<Rightarrow> Inr (count * each)))
                  else py_float (last nums)) of
              Inl e \<Rightarrow> Inl e
            | Inr tot \<Rightarrow>
                Inr (round2 (if unit = ''kg'' then tot * 1000
                             else if unit = ''ml'' then tot * 1 else tot))))"

definition normalize_weight :: "string \<Rightarrow> real" where
  "normalize_weight weight_text =
     (case normalize_weight_try weight_text of Inl e \<Rightarrow> 0 | Inr w \<Rightarrow> w)"

definition rupee :: string where
  "rupee = [CHR 0xE2, CHR 0x82, CHR 0xB9]"

fun search_price :: "string \<Rightarrow> string option" where
  \<comment> \<open>group 1 of the leftmost match of the rupee sign, \<open>\s*\<close> and \<open>([\d.,]+)\<close>, if there is one\<close>
  "search_price [] = None"
| "search_price (c # cs) =
     (if startswith rupee (c # cs)
      then (let tok = takeWhile is_pricech (dropWhile is_space (drop (length rupee) (c # cs)))
            in if tok \<noteq> [] then Some tok else search_price cs)
      else search_price cs)"

definition clean_price_try :: "string \<Rightarrow> py_error + real" where
  "clean_price_try price_text =
     (case search_price price_text of
        Some tok \<Rightarrow> py_float (remove_commas tok)
      | None \<Rightarrow> Inr 0)"

definition clean_price :: "string \<Rightarrow> real" where
  "clean_price price_text =
     (case clean_price_try price_text of Inl e \<Rightarrow> 0 | Inr p \<Rightarrow> p)"

text \<open>
  Two descriptions used to state what the parsers compute. \<open>match_at s i\<close> says that the
  price pattern (rupee sign, optional spaces, at least one of digit, dot, comma) matches
  at offset \<open>i\<close>, and \<open>numeral_at s i\<close> is the text of its group there.
  \<open>spec_mult_pattern\<close> follows the specification's words for a multiplicative pattern
  "N x M": a numeric token, optional spaces, the letter x, optional spaces, a numeric
  token, somewhere in the text.
\<close>

definition match_at :: "string \<Rightarrow> nat \<Rightarrow> bool" where
  "match_at s i \<longleftrightarrow>
     startswith rupee (drop i s) \<and>
     takeWhile is_pricech (dropWhile is_space (drop (i + length rupee) s)) \<noteq> []"

definition numeral_at :: "string \<Rightarrow> nat \<Rightarrow> string" where
  "numeral_at s i = takeWhile is_pricech (dropWhile is_space (drop (i + length rupee) s))"

definition spec_mult_pattern_at :: "string \<Rightarrow> bool" where
  "spec_mult_pattern_at s =
     (let r1 = dropWhile is_space (dropWhile is_numch s)
      in takeWhile is_numch s \<noteq> [] \<and> r1 \<noteq> [] \<and> hd r1 = CHR ''x'' \<and>
         takeWhile is_numch (dropWhile is_space (tl r1)) \<noteq> [])"

fun spec_mult_pattern :: "string \<Rightarrow> bool" where
  "spec_mult_pattern [] = False"
| "spec_mult_pattern (c # cs) = (spec_mult_pattern_at (c # cs) \<or> spec_mult_pattern cs)"

section \<open>The analyser's tables\<close>

text \<open>
  A data frame is the list of its rows, in row order. \<open>csv_row\<close> is a row of the
  flattened CSV file as \<open>pd.read_csv\<close> delivers it: an empty cell is NaN, here
  \<open>None\<close>. The column \<open>price_per_100g\<close> is in the file already (the data manager
  computes it before saving); it is modelled as a number. \<open>product\<close> is a row that
  passed the filters of \<open>load_and_preprocess\<close>, \<open>grouped_product\<close> a row with the
  column \<open>product_group\<close> added by the matcher (NaN, here \<open>None\<close>, for a key outside
  the mapping), \<open>deal\<close> a row of the deals frame, \<open>comparison_row\<close> a row of the
  comparison table. The fields of \<open>csv_row\<close> and \<open>deal\<close> carry a prefix where a
  name is already taken by \<open>product\<close>; \<open>row_brand\<close> is the column \<open>brand\<close> of the
  comparison table.
\<close>

record csv_row =
  csv_name :: "string option"
  csv_brand :: "string option"
  csv_weight :: "real option"
  csv_price :: "real option"
  csv_platform :: string
  csv_price_per_100g :: real

record product =
  name :: string
  brand :: "string option"
  weight :: real
  price :: real
  platform :: string
  price_per_100g :: real
  brand_standardized :: string
  product_key :: string

record grouped_product = product +
  product_group :: "nat option"

record deal =
  d_product_group :: nat
  d_name :: string
  d_brand :: string
  d_weight :: real
  d_price :: real
  d_price_per_100g :: real
  d_platform :: string
  is_best_deal :: bool
  price_difference :: real
  price_difference_percent :: real
  savings_opportunity :: real

record slot =
  slot_price :: "real option"
  slot_per_100g :: "real option"
  slot_is_best :: bool

record comparison_row =
  product_name :: string
  row_brand :: string
  is_comparable :: bool
  platforms_available :: nat
  platform_cols :: "string \<rightharpoonup> slot"

definition unique :: "'a list \<Rightarrow> 'a list" where
  \<comment> \<open>\<open>Series.unique()\<close>: the distinct values in order of first appearance\<close>
  "unique xs = rev (remdups (rev xs))"

definition nunique :: "'a list \<Rightarrow> nat" where
  "nunique xs = length (remdups xs)"

subsection \<open>\<open>load_and_preprocess\<close>\<close>

function remove_sub :: "string \<Rightarrow> string \<Rightarrow> string" where
  \<comment> \<open>\<open>s.replace(sub, '')\<close> for a literal, non-empty \<open>sub\<close>\<close>
  "remove_sub sub [] = []"
| "remove_sub sub (c # cs) =
     (if sub \<noteq> [] \<and> startswith sub (c # cs) then remove_sub sub (drop (length sub) (c # cs))
      else c # remove_sub sub cs)"
  by pat_completeness auto
termination
  by (relation "measure (\<lambda>(sub, s). length s)") auto

definition clean_name :: "string \<Rightarrow> string" where
  "clean_name n = strip (remove_sub '' | Clean Label - Not Brown'' n)"

definition typed_row :: "(string option \<Rightarrow> string) \<Rightarrow> (string \<Rightarrow> string \<Rightarrow> real \<Rightarrow> string)
    \<Rightarrow> csv_row \<Rightarrow> product option" where
  "typed_row standardize_brand create_product_key r =
     (case (csv_name r, csv_price r, csv_weight r) of
        (Some n, Some p, Some w) \<Rightarrow>
          Some \<lparr>name = n, brand = csv_brand r, weight = w, price = p, platform = csv_platform r,
                price_per_100g = csv_price_per_100g r,
                brand_standardized = standardize_brand (csv_brand r),
                product_key = create_product_key n (standardize_brand (csv_brand r)) w\<rparr>
      | _ \<Rightarrow> None)"

definition load_and_preprocess :: "(string option \<Rightarrow> string) \<Rightarrow> (string \<Rightarrow> string \<Rightarrow> real \<Rightarrow> string)
    \<Rightarrow> csv_row list \<Rightarrow> product list" where
  \<comment> \<open>The two row functions \<open>_standardize_brand\<close> and \<open>_create_product_key\<close> (of name,
      standardised brand and weight) are parameters: no property below depends on what
      they compute. The last step only changes the row type; the filters before it
      leave no row that it would drop.\<close>
  "load_and_preprocess standardize_brand create_product_key rows =
     (let df0 = map (\<lambda>r. r\<lparr>csv_name := map_option clean_name (csv_name r)\<rparr>) rows;
          df1 = filter (\<lambda>r. csv_name r \<noteq> None \<and> csv_price r \<noteq> None) df0;
          df2 = filter (\<lambda>r. case csv_price r of Some p \<Rightarrow> 0 < p | None \<Rightarrow> False) df1;
          df3 = filter (\<lambda>r. case csv_weight r of Some w \<Rightarrow> 100 \<le> w | None \<Rightarrow> False) df2
      in List.map_filter (typed_row standardize_brand create_product_key) df3)"

subsection \<open>\<open>fuzzy_match_products\<close>\<close>

text \<open>
  \<open>process.extract\<close> and the scorer \<open>fuzz.token_sort_ratio\<close> belong to the library
  thefuzz. The scorer is a parameter of the matcher's model. \<open>process_extract\<close> is modelled by
  its contract: every choice with its score, best score first, choices of equal score in
  their given order, cut after \<open>limit\<close> results.
\<close>

definition process_extract :: "(string \<Rightarrow> string \<Rightarrow> nat) \<Rightarrow> string \<Rightarrow> string list \<Rightarrow> nat \<Rightarrow> (string \<times> nat) list" where
  "process_extract scorer query choices limit =
     take limit (sort_key (\<lambda>m. - int (snd m)) (map (\<lambda>c. (c, scorer query c)) choices))"

definition high_matches :: "(string \<Rightarrow> string \<Rightarrow> nat) \<Rightarrow> nat \<Rightarrow> string list \<Rightarrow> string \<Rightarrow> string list" where
  "high_matches scorer threshold unique_products product_key' =
     map fst (filter (\<lambda>m. threshold \<le> snd m) (process_extract scorer product_key' unique_products 10))"

fun extend_group :: "(string \<times> string list) list \<Rightarrow> string \<Rightarrow> string list \<Rightarrow> (string \<times> string list) list" where
  \<comment> \<open>the dict \<open>product_groups\<close> in insertion order: a new key goes to the end,
      an old key keeps its place and has its list extended\<close>
  "extend_group [] group_key ms = [(group_key, ms)]"
| "extend_group ((g, l) # rest) group_key ms =
     (if g = group_key then (g, l @ ms) # rest else (g, l) # extend_group rest group_key ms)"

definition match_step :: "(string \<Rightarrow> string \<Rightarrow> nat) \<Rightarrow> nat \<Rightarrow> string list
    \<Rightarrow> (string \<times> string list) list \<Rightarrow> string \<Rightarrow> (string \<times> string list) list" where
  "match_step scorer threshold unique_products product_groups k =
     (let hm = high_matches scorer threshold unique_products k
      in if hm \<noteq> [] then extend_group product_groups (min_list hm) hm else product_groups)"

definition product_groups_of :: "(string \<Rightarrow> string \<Rightarrow> nat) \<Rightarrow> nat \<Rightarrow> string list \<Rightarrow> (string \<times> string list) list" where
  "product_groups_of scorer threshold unique_products =
     foldl (match_step scorer threshold unique_products) [] unique_products"

definition group_mapping_of :: "(string \<times> string list) list \<Rightarrow> (string \<rightharpoonup> nat)" where
  "group_mapping_of product_groups =
     foldl (\<lambda>m (group_id, product_keys). foldl (\<lambda>m k. m(k \<mapsto> group_id)) m product_keys)
       Map.empty (zip [0..<length product_groups] (map snd product_groups))"

definition fuzzy_match_products :: "(string \<Rightarrow> string \<Rightarrow> nat) \<Rightarrow> nat \<Rightarrow> product list \<Rightarrow> grouped_product list" where
  "fuzzy_match_products scorer threshold df =
     (let unique_products = unique (map product_key df);
          group_mapping = group_mapping_of (product_groups_of scorer threshold unique_products)
      in map (\<lambda>p. \<lparr>name = name p, brand = brand p, weight = weight p, price = price p,
                    platform = platform p, price_per_100g = price_per_100g p,
                    brand_standardized = brand_standardized p, product_key = product_key p,
                    product_group = group_mapping (product_key p)\<rparr>) df)"

text \<open>
  The scorer of thefuzz, for the concrete examples: \<open>token_sort_ratio\<close> cleans both
  texts (\<open>full_process\<close>: every character that is neither a letter, a digit nor an
  underscore becomes a space, then lower case and strip), sorts their
  whitespace-separated tokens, joins them with single spaces and returns the rounded
  percentage \<open>200 * lcs / (length a + length b)\<close>, where \<open>lcs\<close> is the length of a
  longest common subsequence (two empty texts score 100).
\<close>

definition is_word_char :: "char \<Rightarrow> bool" where
  "is_word_char c \<longleftrightarrow> is_digit c \<or> (CHR ''a'' \<le> c \<and> c \<le> CHR ''z'') \<or>
     (CHR ''A'' \<le> c \<and> c \<le> CHR ''Z'') \<or> c = CHR ''_''"

definition full_process :: "string \<Rightarrow> string" where
  "full_process s = strip (lower (map (\<lambda>c. if is_word_char c then c else CHR '' '') s))"

function split_ws :: "string \<Rightarrow> string list" where
  \<comment> \<open>\<open>s.split()\<close>\<close>
  "split_ws [] = []"
| "split_ws (c # cs) =
     (if is_space c then split_ws cs
      else takeWhile (\<lambda>d. \<not> is_space d) (c # cs) # split_ws (dropWhile (\<lambda>d. \<not> is_space d) cs))"
  by pat_completeness auto
termination
  by (relation "measure length") (auto simp: le_imp_less_Suc length_dropWhile_le)

fun join_spaces :: "string list \<Rightarrow> string" where
  "join_spaces [] = []"
| "join_spaces [t] = t"
| "join_spaces (t # u # ts) = t @ '' '' @ join_spaces (u # ts)"

definition process_and_sort :: "string \<Rightarrow> string" where
  "process_and_sort s = strip (join_spaces (sort (split_ws (full_process s))))"

fun lcs :: "string \<Rightarrow> string \<Rightarrow> nat" where
  "lcs [] ys = 0"
| "lcs (x # xs) [] = 0"
| "lcs (x # xs) (y # ys) =
     (if x = y then Suc (lcs xs ys) else max (lcs (x # xs) ys) (lcs xs (y # ys)))"

definition ratio :: "string \<Rightarrow> string \<Rightarrow> nat" where
  "ratio a b =
     (if a = [] \<and> b = [] then 100
      else nat (round_half_even (200 * real (lcs a b) / real (length a + length b))))"

definition token_sort_ratio :: "string \<Rightarrow> string \<Rightarrow> nat" where
  "token_sort_ratio s1 s2 = ratio (process_and_sort s1) (process_and_sort s2)"

text \<open>
  The specification's words for the accumulated mapping of the matcher: across all keys
  in discovery order, every key of a match-set is mapped to that match-set's smallest
  key, and a later match-set overwrites an earlier one.
\<close>

definition spec_identifier_of :: "(string \<Rightarrow> string \<Rightarrow> nat) \<Rightarrow> nat \<Rightarrow> string list \<Rightarrow> (string \<rightharpoonup> string)" where
  "spec_identifier_of scorer threshold unique_products =
     foldl (\<lambda>m k. let hm = high_matches scorer threshold unique_products k
                   in foldl (\<lambda>m x. m(x \<mapsto> min_list hm)) m hm)
       Map.empty unique_products"

subsection \<open>\<open>identify_best_deals\<close>\<close>

definition deal_record :: "nat \<Rightarrow> real \<Rightarrow> grouped_product \<Rightarrow> deal" where
  \<comment> \<open>the record appended for one product of a group with minimum \<open>min_price\<close>\<close>
  "deal_record group_id min_price product =
     (let price_diff = price_per_100g product - min_price;
          price_diff_percent = (if 0 < min_price then (price_diff / min_price) * 100 else 0);
          is_best = (price_per_100g product = min_price)
      in \<lparr>d_product_group = group_id, d_name = name product,
          d_brand = brand_standardized product, d_weight = weight product,
          d_price = price product, d_price_per_100g = price_per_100g product,
          d_platform = platform product, is_best_deal = is_best,
          price_difference = price_diff, price_difference_percent = price_diff_percent,
          savings_opportunity = (if \<not> is_best then price_diff else 0)\<rparr>)"

definition deals_of_group :: "nat \<Rightarrow> grouped_product list \<Rightarrow> deal list" where
  \<comment> \<open>the body of the loop over the group ids\<close>
  "deals_of_group group_id group_products =
     (if nunique (map platform group_products) < 2 then []
      else
        (let available_products = filter (\<lambda>p. 0 < price_per_100g p) group_products
         in if length available_products < 2 then []
            else
              (let min_price = min_list (map price_per_100g available_products)
               in concat (map (\<lambda>product.
                    if price_per_100g product = 0 then []
                    else [deal_record group_id min_price product])
                    group_products))))"

abbreviation group_products_of :: "grouped_product list \<Rightarrow> nat \<Rightarrow> grouped_product list" where
  \<comment> \<open>\<open>df[df['product_group'] == group_id]\<close>\<close>
  "group_products_of df g \<equiv> filter (\<lambda>p. product_group p = Some g) df"

definition identify_best_deals :: "grouped_product list \<Rightarrow> deal list" where
  \<comment> \<open>A NaN group id equals no row's group id (not even NaN), so its group is empty
      and is skipped by the platform test.\<close>
  "identify_best_deals df =
     concat (map (\<lambda>group_id.
               case group_id of
                 None \<Rightarrow> []
               | Some g \<Rightarrow> deals_of_group g (group_products_of df g))
             (unique (map product_group df)))"

subsection \<open>\<open>create_comparison_table\<close>\<close>

definition mode_values :: "string list \<Rightarrow> string list" where
  \<comment> \<open>\<open>Series.mode()\<close>: the most frequent values, sorted ascending\<close>
  "mode_values xs =
     sort (filter (\<lambda>v. list_all (\<lambda>w. count_list xs w \<le> count_list xs v) xs) (remdups xs))"

definition representative :: "string list \<Rightarrow> py_error + string" where
  \<comment> \<open>\<open>col.mode()[0] if not col.mode().empty else col.iloc[0]\<close>\<close>
  "representative xs =
     (case mode_values xs of
        m # _ \<Rightarrow> Inr m
      | [] \<Rightarrow> (case xs of x # _ \<Rightarrow> Inr x | [] \<Rightarrow> Inl IndexError))"

definition empty_slot :: slot where
  "empty_slot = \<lparr>slot_price = None, slot_per_100g = None, slot_is_best = False\<rparr>"

definition initial_cols :: "string \<rightharpoonup> slot" where
  "initial_cols = [''blinkit'' \<mapsto> empty_slot, ''zepto'' \<mapsto> empty_slot, ''bbnow'' \<mapsto> empty_slot]"

definition best_step :: "real option \<times> string option \<Rightarrow> deal \<Rightarrow> real option \<times> string option" where
  \<comment> \<open>the pair (\<open>best_price_per_100g\<close>, \<open>best_deal_platform\<close>); the price \<open>None\<close> is
      \<open>float('inf')\<close>\<close>
  "best_step st product =
     (if (case fst st of None \<Rightarrow> True | Some b \<Rightarrow> d_price_per_100g product < b)
      then (Some (d_price_per_100g product), Some (d_platform product))
      else st)"

definition best_deal_platform_of :: "bool \<Rightarrow> deal list \<Rightarrow> string option" where
  "best_deal_platform_of comparable group_products =
     (if comparable then snd (foldl best_step (None, None) group_products) else None)"

definition populate :: "bool \<Rightarrow> string option \<Rightarrow> (string \<rightharpoonup> slot) \<Rightarrow> deal \<Rightarrow> py_error + (string \<rightharpoonup> slot)" where
  \<comment> \<open>one round of the second loop over the group; reading the slot of a platform
      outside the three fixed ones raises \<open>KeyError\<close>\<close>
  "populate comparable best_deal_platform cols product =
     (case cols (d_platform product) of
        None \<Rightarrow> Inl KeyError
      | Some s \<Rightarrow>
          (let s1 = (if (case slot_per_100g s of
                           Some v \<Rightarrow> d_price_per_100g product < v
                         | None \<Rightarrow> False)
                     then s\<lparr>slot_price := Some (d_price product),
                            slot_per_100g := Some (d_price_per_100g product)\<rparr>
                     else if slot_per_100g s = None
                     then s\<lparr>slot_price := Some (d_price product),
                            slot_per_100g := Some (d_price_per_100g product)\<rparr>
                     else s);
               s2 = (if comparable \<and> Some (d_platform product) = best_deal_platform
                     then s1\<lparr>slot_is_best := True\<rparr> else s1)
           in Inr (cols(d_platform product \<mapsto> s2))))"

fun populate_all :: "bool \<Rightarrow> string option \<Rightarrow> (string \<rightharpoonup> slot) \<Rightarrow> deal list \<Rightarrow> py_error + (string \<rightharpoonup> slot)" where
  "populate_all comparable best cols [] = Inr cols"
| "populate_all comparable best cols (product # rest) =
     (case populate comparable best cols product of
        Inl e \<Rightarrow> Inl e
      | Inr cols' \<Rightarrow> populate_all comparable best cols' rest)"

definition comparison_row_of :: "deal list \<Rightarrow> py_error + comparison_row" where
  \<comment> \<open>the body of the loop over the group ids\<close>
  "comparison_row_of group_products =
     (case representative (map d_name group_products) of
        Inl e \<Rightarrow> Inl e
      | Inr pname \<Rightarrow>
          (case representative (map d_brand group_products) of
             Inl e \<Rightarrow> Inl e
           | Inr pbrand \<Rightarrow>
               (let platforms_present = nunique (map d_platform group_products);
                    comparable = (2 \<le> platforms_present);
                    best_deal_platform = best_deal_platform_of comparable group_products
                in case populate_all comparable best_deal_platform initial_cols group_products of
                     Inl e \<Rightarrow> Inl e
                   | Inr cols \<Rightarrow>
                       Inr \<lparr>product_name = pname, row_brand = pbrand,
                            is_comparable = comparable,
                            platforms_available = platforms_present,
                            platform_cols = cols\<rparr>)))"

fun all_rows :: "(py_error + 'a) list \<Rightarrow> py_error + 'a list" where
  \<comment> \<open>the loop stops at the first exception\<close>
  "all_rows [] = Inr []"
| "all_rows (r # rs) =
     (case r of
        Inl e \<Rightarrow> Inl e
      | Inr x \<Rightarrow> (case all_rows rs of Inl e \<Rightarrow> Inl e | Inr xs \<Rightarrow> Inr (x # xs)))"

abbreviation deals_in_group :: "deal list \<Rightarrow> nat \<Rightarrow> deal list" where
  \<comment> \<open>\<open>deals_df[deals_df['product_group'] == group_id]\<close>\<close>
  "deals_in_group deals_df g \<equiv> filter (\<lambda>d. d_product_group d = g) deals_df"

definition create_comparison_table :: "deal list \<Rightarrow> py_error + comparison_row list" where
  \<comment> \<open>The empty list is the frame \<open>pd.DataFrame([])\<close> that \<open>identify_best_deals\<close> returns
      when it has no record: it has no columns, and \<open>deals_df['product_group']\<close> raises
      \<open>KeyError\<close>.\<close>
  "create_comparison_table deals_df =
     (if deals_df = [] then Inl KeyError
      else all_rows (map (\<lambda>group_id. comparison_row_of (deals_in_group deals_df group_id))
                      (unique (map d_product_group deals_df))))"

definition main_comparison_table :: "grouped_product list \<Rightarrow> py_error + comparison_row list" where
  \<comment> \<open>\<open>run_analysis.main\<close> and the dashboard: the table is built from the deals frame\<close>
  "main_comparison_table df_matched = create_comparison_table (identify_best_deals df_matched)"

section \<open>Example inputs\<close>

definition mk_product :: "string \<Rightarrow> string \<Rightarrow> real \<Rightarrow> real \<Rightarrow> string \<Rightarrow> real \<Rightarrow> string \<Rightarrow> nat option \<Rightarrow> grouped_product" where
  "mk_product n b w p pl ppg k g =
     \<lparr>name = n, brand = Some b, weight = w, price = p, platform = pl, price_per_100g = ppg,
      brand_standardized = b, product_key = k, product_group = g\<rparr>"

definition example_df :: "grouped_product list" where
  \<comment> \<open>the three records of the specification's end-to-end scenario after matching:
      two Britannia breads on two platforms in group 0, a local loaf alone in group 1\<close>
  "example_df =
     [mk_product ''Britannia Bread 400g'' ''Britannia'' 400 55 ''zepto'' 13.75
        ''britannia_britannia bread 400g'' (Some 0),
      mk_product ''Britannia White Bread'' ''Britannia'' 400 50 ''blinkit'' 12.5
        ''britannia_britannia white bread'' (Some 0),
      mk_product ''Local Loaf'' ''Local'' 300 40 ''bbnow'' 13.33
        ''local_local loaf'' (Some 1)]"

definition example_df_zero :: "grouped_product list" where
  \<comment> \<open>the scenario with a third, very cheap record in group 0 whose rounded price per
      100 g is 0, and a group 2 on two platforms with one positive price only\<close>
  "example_df_zero =
     example_df @
     [mk_product ''Britannia Bread Sample'' ''Britannia'' 1000 0.04 ''bbnow'' 0
        ''britannia_britannia bread sample'' (Some 0),
      mk_product ''Milk Bun'' ''Modern'' 200 0.005 ''zepto'' 0 ''modern_milk bun'' (Some 2),
      mk_product ''Milk Buns'' ''Modern'' 200 30 ''blinkit'' 15 ''modern_milk buns'' (Some 2)]"

definition keeps :: "csv_row \<Rightarrow> bool" where
  \<comment> \<open>what the three filters of \<open>load_and_preprocess\<close> ask of a row: a name, a price
      above 0 and a weight of at least 100\<close>
  "keeps r \<longleftrightarrow>
     (case (csv_name r, csv_price r, csv_weight r) of
        (Some n, Some p, Some w) \<Rightarrow> 0 < p \<and> 100 \<le> w
      | _ \<Rightarrow> False)"

definition example_rows :: "csv_row list" where
  \<comment> \<open>a valid row, a free product, a light product, a row without name, a row without
      weight\<close>
  "example_rows =
     [\<lparr>csv_name = Some ''Britannia Bread 400g | Clean Label - Not Brown '', csv_brand = Some ''Britannia'',
       csv_weight = Some 400, csv_price = Some 55, csv_platform = ''zepto'',
       csv_price_per_100g = 13.75\<rparr>,
      \<lparr>csv_name = Some ''Free Bun'', csv_brand = None, csv_weight = Some 200,
       csv_price = Some 0, csv_platform = ''zepto'', csv_price_per_100g = 0\<rparr>,
      \<lparr>csv_name = Some ''Mini Pav'', csv_brand = Some ''Modern'', csv_weight = Some 50,
       csv_price = Some 10, csv_platform = ''blinkit'', csv_price_per_100g = 20\<rparr>,
      \<lparr>csv_name = None, csv_brand = Some ''Modern'', csv_weight = Some 400,
       csv_price = Some 45, csv_platform = ''bbnow'', csv_price_per_100g = 11.25\<rparr>,
      \<lparr>csv_name = Some ''Milk Bread'', csv_brand = Some ''Modern'', csv_weight = None,
       csv_price = Some 45, csv_platform = ''bbnow'', csv_price_per_100g = 0\<rparr>]"

definition example_df_names :: "grouped_product list" where
  \<comment> \<open>one group on two platforms whose two names occur once each\<close>
  "example_df_names =
     [mk_product ''Modern White Bread'' ''Modern'' 400 40 ''zepto'' 10
        ''modern_modern white bread'' (Some 0),
      mk_product ''Modern Bread White'' ''Modern'' 400 44 ''blinkit'' 11
        ''modern_modern bread white'' (Some 0)]"

definition example_df_tie :: "grouped_product list" where
  \<comment> \<open>group 0 on three platforms, two of them at the same minimal price per 100 g;
      group 1 with an unpriced record on one platform and two priced records on another\<close>
  "example_df_tie =
     [mk_product ''Britannia Bread 400g'' ''Britannia'' 400 50 ''zepto'' 12.5
        ''britannia_britannia bread 400g'' (Some 0),
      mk_product ''Britannia Bread 400 g'' ''Britannia'' 400 50 ''blinkit'' 12.5
        ''britannia_britannia bread 400 g'' (Some 0),
      mk_product ''Britannia Bread'' ''Britannia'' 400 52 ''bbnow'' 13
        ''britannia_britannia bread'' (Some 0),
      mk_product ''Milk Bun'' ''Modern'' 200 0.005 ''zepto'' 0 ''modern_milk bun'' (Some 1),
      mk_product ''Milk Buns'' ''Modern'' 200 30 ''blinkit'' 15 ''modern_milk buns'' (Some 1),
      mk_product ''Milk Buns 2'' ''Modern'' 200 32 ''blinkit'' 16 ''modern_milk buns 2'' (Some 1)]"

text \<open>
  Descriptions used to state what the table builder computes: the group of deal records
  behind the \<open>i\<close>-th row of the table; a value of a column that no other value of the
  column outnumbers; the first value in row order among these (the specification's
  tie-break); and the platform of the first record, in row order, whose price per 100 g
  is minimal in its group.
\<close>

abbreviation table_group :: "deal list \<Rightarrow> nat \<Rightarrow> deal list" where
  "table_group deals i \<equiv> deals_in_group deals (unique (map d_product_group deals) ! i)"

definition most_frequent :: "string list \<Rightarrow> string \<Rightarrow> bool" where
  "most_frequent xs v \<longleftrightarrow> v \<in> set xs \<and> list_all (\<lambda>w. count_list xs w \<le> count_list xs v) xs"

definition spec_first_most_frequent :: "string list \<Rightarrow> string option" where
  "spec_first_most_frequent xs = find (most_frequent xs) xs"

definition first_min_platform :: "deal list \<Rightarrow> string option" where
  "first_min_platform gp =
     map_option d_platform
       (find (\<lambda>d. list_all (\<lambda>e. d_price_per_100g d \<le> d_price_per_100g e) gp) gp)"

definition example_df_overlap :: "product list" where
  \<comment> \<open>three keys: the third is similar to both others, which are not similar to each
      other (scores 92 and 83 against 77, threshold 80)\<close>
  "example_df_overlap =
     [\<lparr>name = ''Breadmax'', brand = Some ''Amul'', weight = 400, price = 40, platform = ''zepto'',
       price_per_100g = 10, brand_standardized = ''Amul'', product_key = ''amul_breadmax''\<rparr>,
      \<lparr>name = ''Breadtop'', brand = Some ''Amul'', weight = 400, price = 44, platform = ''blinkit'',
       price_per_100g = 11, brand_standardized = ''Amul'', product_key = ''amul_breadtop''\<rparr>,
      \<lparr>name = ''Breadx'', brand = Some ''Amul'', weight = 400, price = 48, platform = ''bbnow'',
       price_per_100g = 12, brand_standardized = ''Amul'', product_key = ''amul_breadx''\<rparr>]"

definition mk_amul :: "string \<Rightarrow> product" where
  "mk_amul n =
     \<lparr>name = n, brand = Some ''Amul'', weight = 400, price = 40, platform = ''zepto'',
      price_per_100g = 10, brand_standardized = ''Amul'', product_key = ''amul_'' @ n\<rparr>"

definition example_df_permutations :: "product list" where
  \<comment> \<open>eleven listings whose names are the same five words in different orders\<close>
  "example_df_permutations =
     map mk_amul
       [''bread big hot new soft'', ''bread big hot soft new'', ''bread big new hot soft'',
        ''bread big new soft hot'', ''bread big soft hot new'', ''bread big soft new hot'',
        ''bread hot big new soft'', ''bread hot big soft new'', ''bread hot new big soft'',
        ''bread hot new soft big'', ''bread hot soft big new'']"

section \<open>Properties of the parsers\<close>

lemma contains_kg_g: "contains ''kg'' t \<Longrightarrow> contains ''g'' t"
  by (induction t) (auto split: list.splits elim: startswith.elims)

lemma weight_unit_not_kg: "weight_unit t \<noteq> ''kg''"
  using contains_kg_g by (auto simp: weight_unit_def)

lemma startswith_nil [simp]: "startswith p [] = (p = [])"
  by (cases p) auto

lemma match_at_beyond: "length s \<le> i \<Longrightarrow> \<not> match_at s i"
  by (simp add: match_at_def rupee_def)

lemma match_at_Suc: "match_at (c # cs) (Suc i) = match_at cs i"
  by (simp add: match_at_def)

lemma numeral_at_Suc: "numeral_at (c # cs) (Suc i) = numeral_at cs i"
  by (simp add: numeral_at_def)

lemma search_price_None: "search_price s = None \<longleftrightarrow> (\<forall>i. \<not> match_at s i)"
proof (induction s)
  case Nil
  show ?case by (simp add: match_at_beyond)
next
  case (Cons c cs)
  have "(\<forall>i. \<not> match_at (c # cs) i) \<longleftrightarrow> \<not> match_at (c # cs) 0 \<and> (\<forall>i. \<not> match_at cs i)"
    by (metis match_at_Suc not0_implies_Suc)
  moreover have "search_price (c # cs) = None \<longleftrightarrow> \<not> match_at (c # cs) 0 \<and> search_price cs = None"
    by (auto simp: match_at_def Let_def)
  ultimately show ?case using Cons.IH by simp
qed

lemma search_price_Some:
  "search_price s = Some tok \<longleftrightarrow>
     (\<exists>i. match_at s i \<and> (\<forall>j<i. \<not> match_at s j) \<and> tok = numeral_at s i)"
proof (induction s)
  case Nil
  show ?case by (simp add: match_at_beyond)
next
  case (Cons c cs)
  show ?case
  proof (cases "match_at (c # cs) 0")
    case True
    then have "search_price (c # cs) = Some (numeral_at (c # cs) 0)"
      by (auto simp: match_at_def numeral_at_def Let_def)
    moreover have "(\<exists>i. match_at (c # cs) i \<and> (\<forall>j<i. \<not> match_at (c # cs) j) \<and> tok = numeral_at (c # cs) i)
       \<longleftrightarrow> tok = numeral_at (c # cs) 0"
      using True by (metis not_gr_zero not_less_zero)
    ultimately show ?thesis by auto
  next
    case False
    then have "search_price (c # cs) = search_price cs"
      by (auto simp: match_at_def Let_def)
    moreover have "(\<exists>i. match_at (c # cs) i \<and> (\<forall>j<i. \<not> match_at (c # cs) j) \<and> tok = numeral_at (c # cs) i)
       \<longleftrightarrow> (\<exists>i. match_at cs i \<and> (\<forall>j<i. \<not> match_at cs j) \<and> tok = numeral_at cs i)"
      (is "?L \<longleftrightarrow> ?R")
    proof
      assume ?L
      then obtain i where i: "match_at (c # cs) i" "\<forall>j<i. \<not> match_at (c # cs) j" "tok = numeral_at (c # cs) i"
        by blast
      with False obtain k where k: "i = Suc k" by (cases i) auto
      have "\<forall>j<k. \<not> match_at cs j"
        using i(2) k match_at_Suc by (metis Suc_less_eq)
      with i k show ?R by (auto simp: match_at_Suc numeral_at_Suc)
    next
      assume ?R
      then obtain k where k: "match_at cs k" "\<forall>j<k. \<not> match_at cs j" "tok = numeral_at cs k"
        by blast
      have "\<forall>j<Suc k. \<not> match_at (c # cs) j"
      proof (intro allI impI)
        fix j assume "j < Suc k"
        then show "\<not> match_at (c # cs) j"
          using False k(2) by (cases j) (auto simp: match_at_Suc)
      qed
      with k show ?L
        by (metis match_at_Suc numeral_at_Suc)
    qed
    ultimately show ?thesis using Cons.IH by simp
  qed
qed

lemmas text_defs = strip_def remove_commas_def lower_def lower_char_def is_space_def is_numch_def
  is_pricech_def is_digit_def weight_unit_def py_float_def digits_val_def digit_val_def
  round2_def round_half_even_def rupee_def

text \<open>
  Claim C2. The claim says that kg is detected as a unit of its own and that
  \<open>normalize_weight("1 kg")\<close> is 1000.0. In the code the unit test asks for the
  substring g first, so a text with kg is given the unit g (lemma
  \<open>weight_unit_not_kg\<close>: the unit is never kg), nothing is multiplied by 1000, and
  the text "1 kg" is normalised to 1.0.
\<close>

theorem normalize_weight_kg_shadowed:
  "weight_unit (strip (remove_commas (lower ''1 kg''))) = ''g'' \<and> normalize_weight ''1 kg'' = 1"
  by (simp add: normalize_weight_def normalize_weight_try_def text_defs)

text \<open>
  Claim C7. The price parser returns 0.0 when the price pattern matches nowhere in the
  text; when offset \<open>i\<close> is the first one where it matches and the matched numeral,
  commas removed, reads as the float \<open>v\<close>, it returns \<open>v\<close>; an exception inside the
  \<open>try\<close> never reaches the caller, who gets 0.0; and the three documented examples
  evaluate to 59.0, 1250.50 and 0.0.
\<close>

theorem clean_price_first_numeral:
  "((\<forall>i. \<not> match_at s i) \<longrightarrow> clean_price s = 0) \<and>
   (match_at s i \<and> (\<forall>j<i. \<not> match_at s j) \<and> py_float (remove_commas (numeral_at s i)) = Inr v
      \<longrightarrow> clean_price s = v) \<and>
   (clean_price_try s = Inl e \<longrightarrow> clean_price s = 0) \<and>
   clean_price (rupee @ ''59'') = 59 \<and>
   clean_price (rupee @ ''1,250.50 (was '' @ rupee @ ''1400)'') = 1250.50 \<and>
   clean_price ''no price'' = 0"
proof (intro conjI impI)
  assume "\<forall>i. \<not> match_at s i"
  then have "search_price s = None" by (simp add: search_price_None)
  then show "clean_price s = 0" by (simp add: clean_price_def clean_price_try_def)
next
  assume a: "match_at s i \<and> (\<forall>j<i. \<not> match_at s j) \<and> py_float (remove_commas (numeral_at s i)) = Inr v"
  then have "search_price s = Some (numeral_at s i)"
    using search_price_Some by blast
  with a show "clean_price s = v" by (simp add: clean_price_def clean_price_try_def)
next
  assume "clean_price_try s = Inl e"
  then show "clean_price s = 0" by (simp add: clean_price_def)
next
  show "clean_price (rupee @ ''59'') = 59"
    by (simp add: clean_price_def clean_price_try_def text_defs)
next
  show "clean_price (rupee @ ''1,250.50 (was '' @ rupee @ ''1400)'') = 1250.50"
    by (simp add: clean_price_def clean_price_try_def text_defs)
next
  show "clean_price ''no price'' = 0"
    by (simp add: clean_price_def clean_price_try_def text_defs)
qed

text \<open>
  The hypotheses of the three general parts of C7 are met by the texts "no price",
  the text with two prices, and a price text whose numeral is not a float.
\<close>

theorem clean_price_first_numeral_witness:
  "(\<forall>i. \<not> match_at ''no price'' i) \<and> clean_price ''no price'' = 0 \<and>
   match_at (rupee @ ''1,250.50 (was '' @ rupee @ ''1400)'') 0 \<and>
   py_float (remove_commas (numeral_at (rupee @ ''1,250.50 (was '' @ rupee @ ''1400)'') 0)) = Inr 1250.50 \<and>
   clean_price (rupee @ ''1,250.50 (was '' @ rupee @ ''1400)'') = 1250.50 \<and>
   clean_price_try (rupee @ ''1.2.3'') = Inl ValueError \<and>
   clean_price (rupee @ ''1.2.3'') = 0"
proof -
  have n: "\<forall>i. \<not> match_at ''no price'' i"
    by (simp add: search_price_None [symmetric] text_defs)
  have m: "match_at (rupee @ ''1,250.50 (was '' @ rupee @ ''1400)'') 0 \<and>
      (\<forall>j<0::nat. \<not> match_at (rupee @ ''1,250.50 (was '' @ rupee @ ''1400)'') j) \<and>
      py_float (remove_commas (numeral_at (rupee @ ''1,250.50 (was '' @ rupee @ ''1400)'') 0)) = Inr 1250.50"
    by (simp add: match_at_def numeral_at_def text_defs)
  have e: "clean_price_try (rupee @ ''1.2.3'') = Inl ValueError"
    by (simp add: clean_price_try_def text_defs)
  show ?thesis
    using n m e
      clean_price_first_numeral [of "''no price''"]
      clean_price_first_numeral [of "rupee @ ''1,250.50 (was '' @ rupee @ ''1400)''" 0 "1250.50"]
      clean_price_first_numeral [of "rupee @ ''1.2.3''" _ _ ValueError]
    by blast
qed

text \<open>
  Claim C8, as stated, fails: the text "2 boxes 350 g" holds no pattern "N x M", its last
  numeric token is 350, and the normaliser returns 700.0, the product of its first two
  numeric tokens, because the letter x occurs in "boxes".
\<close>

theorem normalize_weight_x_anywhere_counterexample:
  "\<not> spec_mult_pattern (strip (remove_commas (lower ''2 boxes 350 g''))) \<and>
   py_float (last (findall_nums (strip (remove_commas (lower ''2 boxes 350 g''))))) = Inr 350 \<and>
   normalize_weight ''2 boxes 350 g'' = 700"
  by (simp add: normalize_weight_def normalize_weight_try_def spec_mult_pattern_at_def text_defs)

text \<open>
  Claim C8, amended. On a cleaned text without the substring kg, the weight normaliser
  returns 0.0 when there is no numeric token. When the letter x occurs anywhere in the
  cleaned text and there are at least two numeric tokens, it returns the rounded product
  of the first two numeric tokens if both read as floats, and 0.0 if one of them does
  not. Otherwise it returns the rounded last numeric token if that reads as a float, and
  0.0 if it does not. The three documented examples evaluate to 400.0, 350.0 and 0.0.
\<close>

theorem normalize_weight_rule:
  assumes "t = strip (remove_commas (lower w))" and "nums = findall_nums t"
    and "\<not> contains ''kg'' t"
  shows "(nums = [] \<longrightarrow> normalize_weight w = 0) \<and>
    (contains ''x'' t \<and> 2 \<le> length nums \<and> py_float (nums ! 0) = Inr a \<and> py_float (nums ! 1) = Inr b
       \<longrightarrow> normalize_weight w = round2 (a * b)) \<and>
    (contains ''x'' t \<and> 2 \<le> length nums \<and> (py_float (nums ! 0) = Inl e0 \<or> py_float (nums ! 1) = Inl e1)
       \<longrightarrow> normalize_weight w = 0) \<and>
    (nums \<noteq> [] \<and> \<not> (contains ''x'' t \<and> 2 \<le> length nums) \<and> py_float (last nums) = Inr v
       \<longrightarrow> normalize_weight w = round2 v) \<and>
    (nums \<noteq> [] \<and> \<not> (contains ''x'' t \<and> 2 \<le> length nums) \<and> py_float (last nums) = Inl e2
       \<longrightarrow> normalize_weight w = 0) \<and>
    normalize_weight ''2 x 200 g'' = 400 \<and>
    normalize_weight ''1 pack (350 g)'' = 350 \<and>
    normalize_weight ''garbage'' = 0"
proof -
  have u: "weight_unit t \<noteq> ''kg''"
    using assms(3) by (simp add: weight_unit_def)
  have 1: "nums = [] \<longrightarrow> normalize_weight w = 0"
    using assms(1,2) by (simp add: normalize_weight_def normalize_weight_try_def Let_def)
  have 2: "contains ''x'' t \<and> 2 \<le> length nums \<and> py_float (nums ! 0) = Inr a \<and> py_float (nums ! 1) = Inr b
       \<longrightarrow> normalize_weight w = round2 (a * b)"
    using assms(1,2) u by (auto simp: normalize_weight_def normalize_weight_try_def Let_def)
  have 3: "contains ''x'' t \<and> 2 \<le> length nums \<and> (py_float (nums ! 0) = Inl e0 \<or> py_float (nums ! 1) = Inl e1)
       \<longrightarrow> normalize_weight w = 0"
    using assms(1,2)
    by (auto simp: normalize_weight_def normalize_weight_try_def Let_def split: sum.splits)
  have 4: "nums \<noteq> [] \<and> \<not> (contains ''x'' t \<and> 2 \<le> length nums) \<and> py_float (last nums) = Inr v
       \<longrightarrow> normalize_weight w = round2 v"
    using assms(1,2) u by (auto simp: normalize_weight_def normalize_weight_try_def Let_def)
  have 5: "nums \<noteq> [] \<and> \<not> (contains ''x'' t \<and> 2 \<le> length nums) \<and> py_float (last nums) = Inl e2
       \<longrightarrow> normalize_weight w = 0"
    using assms(1,2) by (auto simp: normalize_weight_def normalize_weight_try_def Let_def)
  have 6: "normalize_weight ''2 x 200 g'' = 400"
    by (simp add: normalize_weight_def normalize_weight_try_def text_defs)
  have 7: "normalize_weight ''1 pack (350 g)'' = 350"
    by (simp add: normalize_weight_def normalize_weight_try_def text_defs)
  have 8: "normalize_weight ''garbage'' = 0"
    by (simp add: normalize_weight_def normalize_weight_try_def text_defs)
  from 1 2 3 4 5 6 7 8 show ?thesis by blast
qed

text \<open>
  The amended rule of C8 on three texts without kg: "2 boxes 350 g" has an x and two
  float tokens and gives their product; "1 pc (approx. 300 g)" has an x (in "approx")
  and the tokens 1, a lone dot and 300, the second of which is not a float, and gives
  0.0; "350 g." has no x and ends in the token of a lone dot, and gives 0.0.
\<close>

theorem normalize_weight_rule_witness:
  "\<not> contains ''kg'' (strip (remove_commas (lower ''2 boxes 350 g''))) \<and>
   contains ''x'' (strip (remove_commas (lower ''2 boxes 350 g''))) \<and>
   findall_nums (strip (remove_commas (lower ''2 boxes 350 g''))) = [''2'', ''350''] \<and>
   normalize_weight ''2 boxes 350 g'' = round2 (2 * 350) \<and>
   \<not> contains ''kg'' (strip (remove_commas (lower ''1 pc (approx. 300 g)''))) \<and>
   contains ''x'' (strip (remove_commas (lower ''1 pc (approx. 300 g)''))) \<and>
   findall_nums (strip (remove_commas (lower ''1 pc (approx. 300 g)''))) = [''1'', ''.'', ''300''] \<and>
   py_float ''.'' = Inl ValueError \<and>
   normalize_weight ''1 pc (approx. 300 g)'' = 0 \<and>
   \<not> contains ''kg'' (strip (remove_commas (lower ''350 g.''))) \<and>
   \<not> contains ''x'' (strip (remove_commas (lower ''350 g.''))) \<and>
   findall_nums (strip (remove_commas (lower ''350 g.''))) = [''350'', ''.''] \<and>
   normalize_weight ''350 g.'' = 0"
proof -
  have t1: "strip (remove_commas (lower ''2 boxes 350 g'')) = ''2 boxes 350 g''"
    by (simp add: text_defs)
  have n1: "findall_nums ''2 boxes 350 g'' = [''2'', ''350'']"
    by (simp add: text_defs)
  have k1: "\<not> contains ''kg'' ''2 boxes 350 g''" by simp
  have x1: "contains ''x'' ''2 boxes 350 g''" by simp
  have f1: "py_float ([''2'', ''350''] ! 0) = Inr 2" "py_float ([''2'', ''350''] ! 1) = Inr 350"
    by (simp_all add: text_defs)
  have r1: "normalize_weight ''2 boxes 350 g'' = round2 (2 * 350)"
    using normalize_weight_rule [of "''2 boxes 350 g''" "''2 boxes 350 g''" "[''2'', ''350'']" 2 350]
      t1 n1 k1 x1 f1
    by simp
  have t2: "strip (remove_commas (lower ''1 pc (approx. 300 g)'')) = ''1 pc (approx. 300 g)''"
    by (simp add: text_defs)
  have n2: "findall_nums ''1 pc (approx. 300 g)'' = [''1'', ''.'', ''300'']"
    by (simp add: text_defs)
  have k2: "\<not> contains ''kg'' ''1 pc (approx. 300 g)''" by simp
  have x2: "contains ''x'' ''1 pc (approx. 300 g)''" by simp
  have d: "py_float ''.'' = Inl ValueError"
    by (simp add: text_defs)
  have f2: "py_float ([''1'', ''.'', ''300''] ! 1) = Inl ValueError"
    using d by simp
  have r2: "normalize_weight ''1 pc (approx. 300 g)'' = 0"
    using normalize_weight_rule
        [of "''1 pc (approx. 300 g)''" "''1 pc (approx. 300 g)''" "[''1'', ''.'', ''300'']"
          _ _ _ ValueError]
      t2 n2 k2 x2 f2
    by simp
  have t3: "strip (remove_commas (lower ''350 g.'')) = ''350 g.''"
    by (simp add: text_defs)
  have n3: "findall_nums ''350 g.'' = [''350'', ''.'']"
    by (simp add: text_defs)
  have k3: "\<not> contains ''kg'' ''350 g.''" by simp
  have x3: "\<not> contains ''x'' ''350 g.''" by simp
  have f3: "py_float (last [''350'', ''.'']) = Inl ValueError"
    using d by simp
  have r3: "normalize_weight ''350 g.'' = 0"
    using normalize_weight_rule
        [of "''350 g.''" "''350 g.''" "[''350'', ''.'']" _ _ _ _ _ ValueError]
      t3 n3 k3 x3 f3
    by simp
  show ?thesis
    unfolding t1 t2 t3 using n1 n2 n3 k1 k2 k3 x1 x2 x3 d r1 r2 r3 by blast
qed

section \<open>Properties of the deal identifier\<close>

lemma nunique_card: "nunique xs = card (set xs)"
  by (simp add: nunique_def length_remdups_card_conv)

lemma set_unique [simp]: "set (unique xs) = set xs"
  by (simp add: unique_def)

lemma distinct_unique [simp]: "distinct (unique xs)"
  by (simp add: unique_def)

lemma concat_map_singleton_if:
  "concat (map (\<lambda>x. if P x then [] else [f x]) xs) = map f (filter (\<lambda>x. \<not> P x) xs)"
  by (induction xs) auto

lemma deals_of_group_eq:
  "deals_of_group g gp =
     (if 2 \<le> card (platform ` set gp) \<and> 2 \<le> length (filter (\<lambda>p. 0 < price_per_100g p) gp)
      then map (deal_record g (min_list (map price_per_100g (filter (\<lambda>p. 0 < price_per_100g p) gp))))
             (filter (\<lambda>p. price_per_100g p \<noteq> 0) gp)
      else [])"
  by (simp add: deals_of_group_def nunique_card Let_def concat_map_singleton_if not_less)

lemma deal_record_sel [simp]:
  "d_product_group (deal_record g m p) = g"
  "d_name (deal_record g m p) = name p"
  "d_brand (deal_record g m p) = brand_standardized p"
  "d_weight (deal_record g m p) = weight p"
  "d_price (deal_record g m p) = price p"
  "d_price_per_100g (deal_record g m p) = price_per_100g p"
  "d_platform (deal_record g m p) = platform p"
  "is_best_deal (deal_record g m p) = (price_per_100g p = m)"
  "price_difference (deal_record g m p) = price_per_100g p - m"
  "savings_opportunity (deal_record g m p) = (if price_per_100g p = m then 0 else price_per_100g p - m)"
  by (simp_all add: deal_record_def Let_def)

lemma deals_of_group_group: "d \<in> set (deals_of_group g gp) \<Longrightarrow> d_product_group d = g"
  by (auto simp: deals_of_group_eq split: if_splits)

lemma identify_best_deals_set:
  "set (identify_best_deals df) =
     (\<Union>g \<in> {g. Some g \<in> product_group ` set df}. set (deals_of_group g (group_products_of df g)))"
  by (auto simp: identify_best_deals_def split: option.splits)

lemma deals_of_group_Nil [simp]: "deals_of_group g [] = []"
  by (simp add: deals_of_group_eq)

lemma filter_group_concat:
  assumes "distinct gs"
  shows "filter (\<lambda>d. d_product_group d = g)
           (concat (map (\<lambda>gid. case gid of None \<Rightarrow> [] | Some g' \<Rightarrow> deals_of_group g' (F g')) gs)) =
         (if Some g \<in> set gs then deals_of_group g (F g) else [])"
  using assms
proof (induction gs)
  case Nil
  show ?case by simp
next
  case (Cons gid gs)
  show ?case
  proof (cases gid)
    case None
    with Cons show ?thesis by simp
  next
    case (Some g')
    have all: "g' = g \<Longrightarrow> filter (\<lambda>d. d_product_group d = g) (deals_of_group g' (F g')) = deals_of_group g (F g)"
      by (simp add: deals_of_group_group)
    have none: "g' \<noteq> g \<Longrightarrow> filter (\<lambda>d. d_product_group d = g) (deals_of_group g' (F g')) = []"
      by (auto simp: filter_empty_conv dest: deals_of_group_group)
    show ?thesis
    proof (cases "g' = g")
      case True
      with Cons Some all show ?thesis by auto
    next
      case False
      with Cons Some none show ?thesis by auto
    qed
  qed
qed

lemma deals_in_group_identify:
  "deals_in_group (identify_best_deals df) g = deals_of_group g (group_products_of df g)"
proof -
  have "filter (\<lambda>p. product_group p = Some g) df = []" if "Some g \<notin> product_group ` set df"
    using that by (auto simp: filter_empty_conv image_iff) 
  then show ?thesis
    unfolding identify_best_deals_def
    by (simp add: filter_group_concat [where F = "group_products_of df"])
qed

text \<open>
  Claim C5. For every matched frame and every group id: a group with fewer than 2
  distinct platforms, and a group with fewer than 2 records of positive price per 100 g,
  have no deal record; the deal records of any other group are those of its records
  whose price per 100 g is not 0, in row order; and no deal record at all has the price
  per 100 g 0. The function is total: an excluded group raises nothing, the loop just
  continues.
\<close>

theorem identify_best_deals_exclusions:
  "(card (platform ` set (group_products_of df g)) < 2
      \<longrightarrow> deals_in_group (identify_best_deals df) g = []) \<and>
   (length (filter (\<lambda>p. 0 < price_per_100g p) (group_products_of df g)) < 2
      \<longrightarrow> deals_in_group (identify_best_deals df) g = []) \<and>
   (2 \<le> card (platform ` set (group_products_of df g)) \<and>
    2 \<le> length (filter (\<lambda>p. 0 < price_per_100g p) (group_products_of df g))
      \<longrightarrow> deals_in_group (identify_best_deals df) g =
          map (deal_record g (min_list (map price_per_100g
                 (filter (\<lambda>p. 0 < price_per_100g p) (group_products_of df g)))))
            (filter (\<lambda>p. price_per_100g p \<noteq> 0) (group_products_of df g))) \<and>
   (\<forall>d \<in> set (identify_best_deals df). d_price_per_100g d \<noteq> 0)"
proof -
  have "\<forall>d \<in> set (identify_best_deals df). d_price_per_100g d \<noteq> 0"
    by (auto simp: identify_best_deals_set deals_of_group_eq split: if_splits)
  then show ?thesis
    by (simp add: deals_in_group_identify deals_of_group_eq)
qed

text \<open>
  The exclusions of C5 on the example frame: group 1 has one platform, group 2 one
  positive price, and group 0 gives deal records for its two priced records only.
\<close>

theorem identify_best_deals_exclusions_witness:
  "card (platform ` set (group_products_of example_df_zero 1)) < 2 \<and>
   deals_in_group (identify_best_deals example_df_zero) 1 = [] \<and>
   length (filter (\<lambda>p. 0 < price_per_100g p) (group_products_of example_df_zero 2)) < 2 \<and>
   deals_in_group (identify_best_deals example_df_zero) 2 = [] \<and>
   2 \<le> card (platform ` set (group_products_of example_df_zero 0)) \<and>
   2 \<le> length (filter (\<lambda>p. 0 < price_per_100g p) (group_products_of example_df_zero 0)) \<and>
   map d_name (deals_in_group (identify_best_deals example_df_zero) 0) =
     [''Britannia Bread 400g'', ''Britannia White Bread''] \<and>
   list_all (\<lambda>d. d_price_per_100g d \<noteq> 0) (identify_best_deals example_df_zero)"
proof -
  have 1: "card (platform ` set (group_products_of example_df_zero 1)) < 2"
    by (simp add: example_df_zero_def example_df_def mk_product_def)
  have 2: "length (filter (\<lambda>p. 0 < price_per_100g p) (group_products_of example_df_zero 2)) < 2"
    by (simp add: example_df_zero_def example_df_def mk_product_def)
  have 3: "2 \<le> card (platform ` set (group_products_of example_df_zero 0))"
    by (simp add: example_df_zero_def example_df_def mk_product_def)
  have 4: "2 \<le> length (filter (\<lambda>p. 0 < price_per_100g p) (group_products_of example_df_zero 0))"
    by (simp add: example_df_zero_def example_df_def mk_product_def)
  have 5: "map name (filter (\<lambda>p. price_per_100g p \<noteq> 0) (group_products_of example_df_zero 0)) =
      [''Britannia Bread 400g'', ''Britannia White Bread'']"
    by (simp add: example_df_zero_def example_df_def mk_product_def)
  have e1: "deals_in_group (identify_best_deals example_df_zero) 1 = []"
    using identify_best_deals_exclusions [where df = example_df_zero and g = 1] 1 by blast
  have e2: "deals_in_group (identify_best_deals example_df_zero) 2 = []"
    using identify_best_deals_exclusions [where df = example_df_zero and g = 2] 2 by blast
  have e0: "deals_in_group (identify_best_deals example_df_zero) 0 =
      map (deal_record 0 (min_list (map price_per_100g
             (filter (\<lambda>p. 0 < price_per_100g p) (group_products_of example_df_zero 0)))))
        (filter (\<lambda>p. price_per_100g p \<noteq> 0) (group_products_of example_df_zero 0))"
    using identify_best_deals_exclusions [where df = example_df_zero and g = 0] 3 4 by blast
  have nm: "map d_name (deals_in_group (identify_best_deals example_df_zero) 0) =
      [''Britannia Bread 400g'', ''Britannia White Bread'']"
    unfolding e0 using 5 by (simp add: o_def)
  have z: "\<forall>d \<in> set (identify_best_deals example_df_zero). d_price_per_100g d \<noteq> 0"
    using identify_best_deals_exclusions [where df = example_df_zero and g = 0] by blast
  from z have z': "list_all (\<lambda>d. d_price_per_100g d \<noteq> 0) (identify_best_deals example_df_zero)"
    by (simp add: list_all_iff)
  from 1 2 3 4 e1 e2 nm z' show ?thesis by blast
qed

lemma min_list_props:
  assumes "xs \<noteq> []"
  shows "min_list xs \<in> set xs" and "\<forall>x \<in> set xs. min_list xs \<le> (x::real)"
  using assms by (simp_all add: min_list_Min)

text \<open>
  Claim C4. On a matched frame whose prices per 100 g are not negative (they are
  \<open>price / weight * 100\<close> of records with positive price and weight, rounded): every
  deal record has a savings opportunity that is at least 0, and equal to 0 exactly when
  it is marked best deal; every group with at least 2 distinct platforms and at least 2
  records of positive price per 100 g has a deal record that is marked best deal and
  has savings opportunity 0; and a deal record is marked best deal exactly when its
  price per 100 g equals the minimum over the positively priced records of its group,
  so all ties are marked.
\<close>

theorem savings_nonnegative_best_exists:
  assumes "\<forall>p \<in> set df. 0 \<le> price_per_100g p"
  shows
    "(\<forall>d \<in> set (identify_best_deals df).
        0 \<le> savings_opportunity d \<and> (savings_opportunity d = 0 \<longleftrightarrow> is_best_deal d)) \<and>
     (\<forall>g. 2 \<le> card (platform ` set (group_products_of df g)) \<and>
          2 \<le> length (filter (\<lambda>p. 0 < price_per_100g p) (group_products_of df g))
          \<longrightarrow> (\<exists>d \<in> set (identify_best_deals df).
                 d_product_group d = g \<and> is_best_deal d \<and> savings_opportunity d = 0)) \<and>
     (\<forall>d \<in> set (identify_best_deals df).
        is_best_deal d \<longleftrightarrow>
          d_price_per_100g d =
            Min (price_per_100g ` {p \<in> set (group_products_of df (d_product_group d)). 0 < price_per_100g p}))"
proof (intro conjI ballI allI impI)
  fix d assume d: "d \<in> set (identify_best_deals df)"
  then obtain g where g: "d \<in> set (deals_of_group g (group_products_of df g))"
    by (auto simp: identify_best_deals_set)
  let ?gp = "group_products_of df g"
  let ?av = "filter (\<lambda>p. 0 < price_per_100g p) ?gp"
  let ?m = "min_list (map price_per_100g ?av)"
  from g obtain p where p: "p \<in> set ?gp" "price_per_100g p \<noteq> 0" "d = deal_record g ?m p"
    and q: "2 \<le> length ?av"
    by (auto simp: deals_of_group_eq split: if_splits)
  from q have ne: "map price_per_100g ?av \<noteq> []" by auto
  from p assms have "0 < price_per_100g p" by (auto simp: less_le)
  with p have "price_per_100g p \<in> set (map price_per_100g ?av)" by auto
  with min_list_props(2) [OF ne] have le: "?m \<le> price_per_100g p" by blast
  show "0 \<le> savings_opportunity d" using p le by simp
  show "savings_opportunity d = 0 \<longleftrightarrow> is_best_deal d" using p le by simp
  have "d_product_group d = g" using p by simp
  moreover have "set (map price_per_100g ?av) = price_per_100g ` {p \<in> set ?gp. 0 < price_per_100g p}"
    by auto
  ultimately show "is_best_deal d \<longleftrightarrow>
      d_price_per_100g d =
        Min (price_per_100g ` {p \<in> set (group_products_of df (d_product_group d)). 0 < price_per_100g p})"
    using p min_list_Min [OF ne] by simp
next
  fix g
  let ?gp = "group_products_of df g"
  let ?av = "filter (\<lambda>p. 0 < price_per_100g p) ?gp"
  let ?m = "min_list (map price_per_100g ?av)"
  assume a: "2 \<le> card (platform ` set ?gp) \<and> 2 \<le> length ?av"
  then have ne: "map price_per_100g ?av \<noteq> []" by auto
  from min_list_props(1) [OF ne] obtain p where p: "p \<in> set ?av" "price_per_100g p = ?m"
    by auto
  then have "p \<in> set (filter (\<lambda>p. price_per_100g p \<noteq> 0) ?gp)" by auto
  then have "deal_record g ?m p \<in> set (deals_of_group g ?gp)"
    using a by (simp add: deals_of_group_eq)
  moreover have "Some g \<in> product_group ` set df" using p by force
  ultimately have "deal_record g ?m p \<in> set (identify_best_deals df)"
    by (auto simp: identify_best_deals_set)
  then show "\<exists>d \<in> set (identify_best_deals df).
      d_product_group d = g \<and> is_best_deal d \<and> savings_opportunity d = 0"
    using p(2) by (intro bexI [of _ "deal_record g ?m p"]) simp_all
qed

text \<open>
  The hypotheses of C4 hold on the example frame, whose group 0 qualifies.
\<close>

theorem savings_nonnegative_best_exists_witness:
  "list_all (\<lambda>p. 0 \<le> price_per_100g p) example_df \<and>
   2 \<le> card (platform ` set (group_products_of example_df 0)) \<and>
   2 \<le> length (filter (\<lambda>p. 0 < price_per_100g p) (group_products_of example_df 0)) \<and>
   (\<exists>d \<in> set (identify_best_deals example_df).
      d_product_group d = 0 \<and> is_best_deal d \<and> savings_opportunity d = 0) \<and>
   0 < length (identify_best_deals example_df) \<and>
   0 \<le> savings_opportunity (identify_best_deals example_df ! 0) \<and>
   (savings_opportunity (identify_best_deals example_df ! 0) = 0 \<longleftrightarrow>
      is_best_deal (identify_best_deals example_df ! 0))"
proof -
  have h: "\<forall>p \<in> set example_df. 0 \<le> price_per_100g p"
    by (simp add: example_df_def mk_product_def)
  have c: "2 \<le> card (platform ` set (group_products_of example_df 0))"
    by (simp add: example_df_def mk_product_def)
  have l: "2 \<le> length (filter (\<lambda>p. 0 < price_per_100g p) (group_products_of example_df 0))"
    by (simp add: example_df_def mk_product_def)
  from savings_nonnegative_best_exists [OF h] c l
  have e: "\<exists>d \<in> set (identify_best_deals example_df).
      d_product_group d = 0 \<and> is_best_deal d \<and> savings_opportunity d = 0"
    by blast
  then have n: "0 < length (identify_best_deals example_df)" by auto
  then have "identify_best_deals example_df ! 0 \<in> set (identify_best_deals example_df)"
    by (rule nth_mem)
  with savings_nonnegative_best_exists [OF h]
  have "0 \<le> savings_opportunity (identify_best_deals example_df ! 0) \<and>
   (savings_opportunity (identify_best_deals example_df ! 0) = 0 \<longleftrightarrow>
      is_best_deal (identify_best_deals example_df ! 0))"
    by blast
  with h c l e n show ?thesis by (simp add: list_all_iff)
qed

section \<open>Properties of the normaliser's filter\<close>

lemma filters_keeps:
  "filter (\<lambda>r. case csv_weight r of Some w \<Rightarrow> 100 \<le> w | None \<Rightarrow> False)
     (filter (\<lambda>r. case csv_price r of Some p \<Rightarrow> 0 < p | None \<Rightarrow> False)
        (filter (\<lambda>r. csv_name r \<noteq> None \<and> csv_price r \<noteq> None) xs)) = filter keeps xs"
  by (induction xs) (auto simp: keeps_def split: option.splits)

lemma load_and_preprocess_eq:
  "load_and_preprocess sb ck rows =
     List.map_filter (typed_row sb ck)
       (filter keeps (map (\<lambda>r. r\<lparr>csv_name := map_option clean_name (csv_name r)\<rparr>) rows))"
  unfolding load_and_preprocess_def Let_def filters_keeps ..

lemma set_map_filter: "set (List.map_filter f xs) = {y. \<exists>x \<in> set xs. f x = Some y}"
  by (induction xs) (auto split: option.splits)

lemma keeps_clean [simp]:
  "keeps (r\<lparr>csv_name := map_option clean_name (csv_name r)\<rparr>) = keeps r"
  by (auto simp: keeps_def split: option.splits)

lemma typed_row_keeps: "keeps r \<Longrightarrow> typed_row sb ck r \<noteq> None"
  by (auto simp: keeps_def typed_row_def split: option.splits)

lemma length_map_filter_all:
  "\<forall>x \<in> set xs. f x \<noteq> None \<Longrightarrow> length (List.map_filter f xs) = length xs"
  by (induction xs) (auto simp: List.map_filter_simps split: option.splits)

lemma load_and_preprocess_length:
  "length (load_and_preprocess sb ck rows) = length (filter keeps rows)"
proof -
  have "length (load_and_preprocess sb ck rows) =
      length (filter keeps (map (\<lambda>r. r\<lparr>csv_name := map_option clean_name (csv_name r)\<rparr>) rows))"
    unfolding load_and_preprocess_eq
    by (rule length_map_filter_all) (simp add: typed_row_keeps)
  also have "\<dots> = length (filter keeps rows)"
    by (simp add: filter_map o_def)
  finally show ?thesis .
qed

lemma load_and_preprocess_sound:
  assumes "p \<in> set (load_and_preprocess sb ck rows)"
  shows "\<exists>r \<in> set rows. \<exists>n. keeps r \<and> csv_name r = Some n \<and> name p = clean_name n \<and>
           csv_price r = Some (price p) \<and> csv_weight r = Some (weight p) \<and> 0 < price p \<and> 100 \<le> weight p"
proof -
  from assms obtain r where r: "r \<in> set rows" "keeps r"
    and t: "typed_row sb ck (r\<lparr>csv_name := map_option clean_name (csv_name r)\<rparr>) = Some p"
    unfolding load_and_preprocess_eq by (auto simp: set_map_filter)
  from r(2) t have "\<exists>n. csv_name r = Some n \<and> name p = clean_name n \<and>
           csv_price r = Some (price p) \<and> csv_weight r = Some (weight p) \<and> 0 < price p \<and> 100 \<le> weight p"
    by (auto simp: keeps_def typed_row_def split: option.splits)
  with r show ?thesis by blast
qed

lemma fuzzy_match_products_fields:
  assumes "q \<in> set (fuzzy_match_products sc th df)"
  shows "\<exists>p \<in> set df. name q = name p \<and> price q = price p \<and> weight q = weight p \<and>
           platform q = platform p \<and> price_per_100g q = price_per_100g p \<and>
           brand_standardized q = brand_standardized p \<and> product_key q = product_key p"
  using assms by (auto simp: fuzzy_match_products_def Let_def)

lemma identify_best_deals_fields:
  assumes "d \<in> set (identify_best_deals df)"
  shows "\<exists>q \<in> set df. d_name d = name q \<and> d_price d = price q \<and> d_weight d = weight q"
proof -
  from assms obtain g where "d \<in> set (deals_of_group g (group_products_of df g))"
    by (auto simp: identify_best_deals_set)
  then obtain m q where "q \<in> set (group_products_of df g)" "d = deal_record g m q"
    by (auto simp: deals_of_group_eq split: if_splits)
  then show ?thesis by auto
qed

text \<open>
  Claim C6. Every record in the output of \<open>load_and_preprocess\<close> has a price above 0 and
  a weight of at least 100 and comes from an input row that has a name (the record
  carries that name, cleaned), this price and this weight; the output has one record per
  input row that meets the three conditions, so every other row is dropped; and the
  records of the matcher's output and the deal records computed from them again have a
  price above 0 and a weight of at least 100 and carry name, price and weight of a record
  of the filter's output. (The comparison table and the insights are computed from the
  deal records alone.)
\<close>

theorem load_and_preprocess_invariant:
  "(\<forall>p \<in> set (load_and_preprocess sb ck rows).
      0 < price p \<and> 100 \<le> weight p \<and>
      (\<exists>r \<in> set rows. \<exists>n. keeps r \<and> csv_name r = Some n \<and> name p = clean_name n \<and>
         csv_price r = Some (price p) \<and> csv_weight r = Some (weight p))) \<and>
   length (load_and_preprocess sb ck rows) = length (filter keeps rows) \<and>
   (\<forall>q \<in> set (fuzzy_match_products sc th (load_and_preprocess sb ck rows)).
      0 < price q \<and> 100 \<le> weight q \<and>
      (\<exists>p \<in> set (load_and_preprocess sb ck rows).
         name q = name p \<and> price q = price p \<and> weight q = weight p)) \<and>
   (\<forall>d \<in> set (identify_best_deals (fuzzy_match_products sc th (load_and_preprocess sb ck rows))).
      0 < d_price d \<and> 100 \<le> d_weight d \<and>
      (\<exists>p \<in> set (load_and_preprocess sb ck rows).
         d_name d = name p \<and> d_price d = price p \<and> d_weight d = weight p))"
proof -
  let ?out = "load_and_preprocess sb ck rows"
  have a: "\<forall>p \<in> set ?out.
      0 < price p \<and> 100 \<le> weight p \<and>
      (\<exists>r \<in> set rows. \<exists>n. keeps r \<and> csv_name r = Some n \<and> name p = clean_name n \<and>
         csv_price r = Some (price p) \<and> csv_weight r = Some (weight p))"
    using load_and_preprocess_sound by blast
  have b: "\<forall>q \<in> set (fuzzy_match_products sc th ?out).
      \<exists>p \<in> set ?out. name q = name p \<and> price q = price p \<and> weight q = weight p"
    using fuzzy_match_products_fields by blast
  have c: "\<forall>d \<in> set (identify_best_deals (fuzzy_match_products sc th ?out)).
      \<exists>p \<in> set ?out. d_name d = name p \<and> d_price d = price p \<and> d_weight d = weight p"
  proof
    fix d assume "d \<in> set (identify_best_deals (fuzzy_match_products sc th ?out))"
    then obtain q where "q \<in> set (fuzzy_match_products sc th ?out)"
      "d_name d = name q \<and> d_price d = price q \<and> d_weight d = weight q"
      using identify_best_deals_fields by blast
    with b show "\<exists>p \<in> set ?out. d_name d = name p \<and> d_price d = price p \<and> d_weight d = weight p"
      by force
  qed
  have b': "\<forall>q \<in> set (fuzzy_match_products sc th ?out). 0 < price q \<and> 100 \<le> weight q"
    using a b by force
  have c': "\<forall>d \<in> set (identify_best_deals (fuzzy_match_products sc th ?out)).
      0 < d_price d \<and> 100 \<le> d_weight d"
    using a c by force
  from a b b' c c' load_and_preprocess_length [of sb ck rows] show ?thesis by blast
qed

text \<open>
  On the example rows, one of five rows passes the filter; it is kept with its cleaned
  name.
\<close>

theorem load_and_preprocess_invariant_witness:
  "map name (load_and_preprocess (\<lambda>b. ''Unknown'') (\<lambda>n b w. b @ ''_'' @ n) example_rows) =
     [''Britannia Bread 400g''] \<and>
   length (filter keeps example_rows) = 1 \<and>
   list_all (\<lambda>p. 0 < price p \<and> 100 \<le> weight p)
     (load_and_preprocess (\<lambda>b. ''Unknown'') (\<lambda>n b w. b @ ''_'' @ n) example_rows)"
proof -
  have n: "map name (load_and_preprocess (\<lambda>b. ''Unknown'') (\<lambda>n b w. b @ ''_'' @ n) example_rows) =
     [''Britannia Bread 400g'']"
    by (simp add: load_and_preprocess_def example_rows_def typed_row_def clean_name_def
        strip_def is_space_def)
  have k: "length (filter keeps example_rows) = 1"
    by (simp add: example_rows_def keeps_def)
  from load_and_preprocess_invariant
      [of "\<lambda>b. ''Unknown''" "\<lambda>n b w. b @ ''_'' @ n" example_rows]
  have "\<forall>p \<in> set (load_and_preprocess (\<lambda>b. ''Unknown'') (\<lambda>n b w. b @ ''_'' @ n) example_rows).
      0 < price p \<and> 100 \<le> weight p"
    by blast
  then have "list_all (\<lambda>p. 0 < price p \<and> 100 \<le> weight p)
     (load_and_preprocess (\<lambda>b. ''Unknown'') (\<lambda>n b w. b @ ''_'' @ n) example_rows)"
    by (simp add: list_all_iff)
  with n k show ?thesis by blast
qed

section \<open>Properties of the comparison table\<close>

lemma all_rows_map_Inr: "all_rows (map Inr xs) = Inr xs"
  by (induction xs) auto

lemma all_rows_Inr: "all_rows rs = Inr xs \<longleftrightarrow> rs = map Inr xs"
proof
  show "all_rows rs = Inr xs \<Longrightarrow> rs = map Inr xs"
    by (induction rs arbitrary: xs) (auto split: sum.splits)
qed (simp add: all_rows_map_Inr)

lemma create_comparison_table_rows:
  assumes "create_comparison_table deals = Inr rows"
  shows "deals \<noteq> []"
    and "length rows = length (unique (map d_product_group deals))"
    and "i < length rows \<Longrightarrow>
      comparison_row_of (deals_in_group deals (unique (map d_product_group deals) ! i)) = Inr (rows ! i)"
proof -
  from assms show ne: "deals \<noteq> []"
    by (auto simp: create_comparison_table_def split: if_splits)
  with assms have m: "map (\<lambda>g. comparison_row_of (deals_in_group deals g))
      (unique (map d_product_group deals)) = map Inr rows"
    by (simp add: create_comparison_table_def all_rows_Inr)
  then show l: "length rows = length (unique (map d_product_group deals))"
    by (metis length_map)
  assume "i < length rows"
  with m l show "comparison_row_of (deals_in_group deals (unique (map d_product_group deals) ! i)) = Inr (rows ! i)"
    by (metis nth_map)
qed

lemma group_nonempty:
  assumes "i < length (unique (map d_product_group deals))"
  shows "deals_in_group deals (unique (map d_product_group deals) ! i) \<noteq> []"
proof -
  have "unique (map d_product_group deals) ! i \<in> set (unique (map d_product_group deals))"
    using assms by (rule nth_mem)
  then have "unique (map d_product_group deals) ! i \<in> d_product_group ` set deals"
    by (simp add: unique_def)
  then show ?thesis by (auto simp: filter_empty_conv)
qed

lemma exists_most_frequent:
  assumes "xs \<noteq> []"
  shows "\<exists>v. most_frequent xs v"
proof -
  have "finite (count_list xs ` set xs)" "count_list xs ` set xs \<noteq> {}"
    using assms by auto
  then have "Max (count_list xs ` set xs) \<in> count_list xs ` set xs"
    by (rule Max_in)
  then obtain v where v: "v \<in> set xs" "count_list xs v = Max (count_list xs ` set xs)"
    by auto
  have "count_list xs w \<le> count_list xs v" if "w \<in> set xs" for w
    using that v(2) by simp
  with v(1) show ?thesis
    by (auto simp: most_frequent_def list_all_iff)
qed

lemma set_mode_values: "set (mode_values xs) = {v. most_frequent xs v}"
  by (auto simp: mode_values_def most_frequent_def)

lemma sorted_mode_values: "sorted (mode_values xs)"
  by (simp add: mode_values_def)

lemma representative_least:
  assumes "xs \<noteq> []" and "representative xs = Inr m"
  shows "most_frequent xs m" and "most_frequent xs v \<Longrightarrow> m \<le> v"
proof -
  from exists_most_frequent [OF assms(1)] have "mode_values xs \<noteq> []"
    using set_mode_values [of xs] by auto
  then obtain ms where ms: "mode_values xs = m # ms"
    using assms(2) by (auto simp: representative_def split: list.splits)
  then have "m \<in> set (mode_values xs)" by simp
  then show "most_frequent xs m" by (simp add: set_mode_values)
  assume "most_frequent xs v"
  then have "v \<in> set (m # ms)" using set_mode_values [of xs] ms by auto
  moreover have "sorted (m # ms)" using sorted_mode_values [of xs] ms by simp
  ultimately show "m \<le> v" by auto
qed

lemma comparison_row_of_fields:
  assumes "comparison_row_of gp = Inr row"
  shows "representative (map d_name gp) = Inr (product_name row)"
    and "representative (map d_brand gp) = Inr (row_brand row)"
    and "is_comparable row = (2 \<le> card (d_platform ` set gp))"
    and "platforms_available row = card (d_platform ` set gp)"
    and "populate_all (is_comparable row) (best_deal_platform_of (is_comparable row) gp) initial_cols gp
           = Inr (platform_cols row)"
  using assms
  by (auto simp: comparison_row_of_def Let_def nunique_def length_remdups_card_conv
           split: sum.splits)


lemma exists_min_record:
  assumes "xs \<noteq> []"
  shows "\<exists>d \<in> set xs. \<forall>e \<in> set xs. f d \<le> (f e :: real)"
proof -
  have "finite (f ` set xs)" "f ` set xs \<noteq> {}" using assms by auto
  then have "Min (f ` set xs) \<in> f ` set xs" by (rule Min_in)
  then obtain d where d: "d \<in> set xs" "f d = Min (f ` set xs)" by auto
  have "f d \<le> f e" if "e \<in> set xs" for e using that d(2) by simp
  with d(1) show ?thesis by blast
qed

lemma find_cong_set: "(\<And>x. x \<in> set xs \<Longrightarrow> P x = Q x) \<Longrightarrow> find P xs = find Q xs"
  by (induction xs) auto

lemma foldl_best_step:
  "foldl best_step (Some b, Some pl) gp =
     (case find (\<lambda>d. d_price_per_100g d < b \<and>
                     list_all (\<lambda>e. d_price_per_100g d \<le> d_price_per_100g e) gp) gp of
        None \<Rightarrow> (Some b, Some pl)
      | Some d \<Rightarrow> (Some (d_price_per_100g d), Some (d_platform d)))"
proof (induction gp arbitrary: b pl)
  case Nil
  show ?case by simp
next
  case (Cons x xs)
  let ?f = d_price_per_100g
  show ?case
  proof (cases "?f x < b")
    case False
    have "find (\<lambda>d. ?f d < b \<and> list_all (\<lambda>e. ?f d \<le> ?f e) (x # xs)) xs =
        find (\<lambda>d. ?f d < b \<and> list_all (\<lambda>e. ?f d \<le> ?f e) xs) xs"
      using False by (intro find_cong_set) auto
    with False Cons.IH [of b pl] show ?thesis
      by (simp add: best_step_def)
  next
    case True
    then have step: "best_step (Some b, Some pl) x = (Some (?f x), Some (d_platform x))"
      by (simp add: best_step_def)
    show ?thesis
    proof (cases "\<forall>e \<in> set xs. ?f x \<le> ?f e")
      case min: True
      then have "find (\<lambda>d. ?f d < ?f x \<and> list_all (\<lambda>e. ?f d \<le> ?f e) xs) xs = None"
        by (auto simp: find_None_iff)
      with True min step Cons.IH [of "?f x" "d_platform x"] show ?thesis
        by (simp add: list_all_iff)
    next
      case notmin: False
      then obtain e0 where e0: "e0 \<in> set xs" "?f e0 < ?f x" by force
      then have "xs \<noteq> []" by auto
      from exists_min_record [OF this, of ?f]
      obtain d0 where d0: "d0 \<in> set xs" "\<forall>e \<in> set xs. ?f d0 \<le> ?f e" by blast
      with e0 have "?f d0 < ?f x" by force
      with d0 have ex: "find (\<lambda>d. ?f d < ?f x \<and> list_all (\<lambda>e. ?f d \<le> ?f e) xs) xs \<noteq> None"
        by (auto simp: find_None_iff list_all_iff)
      have eq: "find (\<lambda>d. ?f d < b \<and> list_all (\<lambda>e. ?f d \<le> ?f e) (x # xs)) xs =
          find (\<lambda>d. ?f d < ?f x \<and> list_all (\<lambda>e. ?f d \<le> ?f e) xs) xs"
      proof (intro find_cong_set)
        fix d assume "d \<in> set xs"
        show "(?f d < b \<and> list_all (\<lambda>e. ?f d \<le> ?f e) (x # xs)) =
              (?f d < ?f x \<and> list_all (\<lambda>e. ?f d \<le> ?f e) xs)"
          using True e0 by (force simp: list_all_iff)
      qed
      have nx: "\<not> list_all (\<lambda>e. ?f x \<le> ?f e) (x # xs)"
        using notmin by (auto simp: list_all_iff)
      from ex obtain d where d: "find (\<lambda>d. ?f d < ?f x \<and> list_all (\<lambda>e. ?f d \<le> ?f e) xs) xs = Some d"
        by auto
      with step nx eq Cons.IH [of "?f x" "d_platform x"] show ?thesis
        by simp
    qed
  qed
qed

lemma best_deal_platform_first_min:
  "best_deal_platform_of True gp = first_min_platform gp"
proof (cases gp)
  case Nil
  then show ?thesis by (simp add: best_deal_platform_of_def first_min_platform_def)
next
  case (Cons x xs)
  let ?f = d_price_per_100g
  have step: "best_step (None, None) x = (Some (?f x), Some (d_platform x))"
    by (simp add: best_step_def)
  have fold: "foldl best_step (None, None) (x # xs) =
      (case find (\<lambda>d. ?f d < ?f x \<and> list_all (\<lambda>e. ?f d \<le> ?f e) xs) xs of
         None \<Rightarrow> (Some (?f x), Some (d_platform x))
       | Some d \<Rightarrow> (Some (?f d), Some (d_platform d)))"
    by (simp add: step foldl_best_step)
  show ?thesis
  proof (cases "\<forall>e \<in> set xs. ?f x \<le> ?f e")
    case True
    then have "find (\<lambda>d. ?f d < ?f x \<and> list_all (\<lambda>e. ?f d \<le> ?f e) xs) xs = None"
      by (auto simp: find_None_iff)
    with True fold Cons show ?thesis
      by (simp add: best_deal_platform_of_def first_min_platform_def list_all_iff)
  next
    case False
    then obtain e0 where e0: "e0 \<in> set xs" "?f e0 < ?f x" by force
    have eq: "find (\<lambda>d. list_all (\<lambda>e. ?f d \<le> ?f e) (x # xs)) xs =
          find (\<lambda>d. ?f d < ?f x \<and> list_all (\<lambda>e. ?f d \<le> ?f e) xs) xs"
    proof (intro find_cong_set)
      fix d assume "d \<in> set xs"
      show "list_all (\<lambda>e. ?f d \<le> ?f e) (x # xs) =
            (?f d < ?f x \<and> list_all (\<lambda>e. ?f d \<le> ?f e) xs)"
        using e0 by (force simp: list_all_iff)
    qed
    have nx: "\<not> list_all (\<lambda>e. ?f x \<le> ?f e) (x # xs)"
      using False by (auto simp: list_all_iff)
    from e0 have "xs \<noteq> []" by auto
    from exists_min_record [OF this, of ?f]
    obtain d0 where d0: "d0 \<in> set xs" "\<forall>e \<in> set xs. ?f d0 \<le> ?f e" by blast
    with e0 have "?f d0 < ?f x" by force
    with d0 have "find (\<lambda>d. ?f d < ?f x \<and> list_all (\<lambda>e. ?f d \<le> ?f e) xs) xs \<noteq> None"
      by (auto simp: find_None_iff list_all_iff)
    then obtain d where "find (\<lambda>d. ?f d < ?f x \<and> list_all (\<lambda>e. ?f d \<le> ?f e) xs) xs = Some d"
      by auto
    with fold nx eq Cons show ?thesis
      by (simp add: best_deal_platform_of_def first_min_platform_def)
  qed
qed

lemma first_min_platform_mem:
  "first_min_platform gp = Some p \<Longrightarrow> p \<in> d_platform ` set gp"
  by (auto simp: first_min_platform_def find_Some_iff)

lemma populate_best:
  assumes "populate c best cols x = Inr cols1" and "cols1 p = Some s1"
  shows "\<exists>s. cols p = Some s \<and>
           (slot_is_best s1 \<longleftrightarrow> slot_is_best s \<or> (c \<and> best = Some p \<and> p = d_platform x))"
  using assms
  by (cases "p = d_platform x")
     (auto simp: populate_def Let_def split: option.splits if_splits)

lemma populate_all_best:
  assumes "populate_all c best cols gp = Inr cols'" and "cols' p = Some s'"
  shows "\<exists>s. cols p = Some s \<and>
           (slot_is_best s' \<longleftrightarrow> slot_is_best s \<or> (c \<and> best = Some p \<and> p \<in> d_platform ` set gp))"
  using assms
proof (induction gp arbitrary: cols)
  case Nil
  then show ?case by simp
next
  case (Cons x xs)
  from Cons.prems(1) obtain cols1 where 1: "populate c best cols x = Inr cols1"
    and 2: "populate_all c best cols1 xs = Inr cols'"
    by (auto split: sum.splits)
  from Cons.IH [OF 2 Cons.prems(2)] obtain s1 where s1: "cols1 p = Some s1"
    "slot_is_best s' \<longleftrightarrow> slot_is_best s1 \<or> (c \<and> best = Some p \<and> p \<in> d_platform ` set xs)"
    by blast
  from populate_best [OF 1 s1(1)] obtain s where s: "cols p = Some s"
    "slot_is_best s1 \<longleftrightarrow> slot_is_best s \<or> (c \<and> best = Some p \<and> p = d_platform x)"
    by blast
  from s s1(2) show ?case by auto
qed

lemma initial_cols_not_best: "initial_cols p = Some s \<Longrightarrow> \<not> slot_is_best s"
  by (auto simp: initial_cols_def empty_slot_def split: if_splits)

lemma row_is_best:
  assumes "comparison_row_of gp = Inr row" and "platform_cols row p = Some s"
  shows "slot_is_best s \<longleftrightarrow> is_comparable row \<and> first_min_platform gp = Some p"
proof -
  let ?c = "is_comparable row"
  from comparison_row_of_fields(5) [OF assms(1)]
  have "populate_all ?c (best_deal_platform_of ?c gp) initial_cols gp = Inr (platform_cols row)" .
  from populate_all_best [OF this assms(2)] initial_cols_not_best
  have *: "slot_is_best s \<longleftrightarrow> ?c \<and> best_deal_platform_of ?c gp = Some p \<and> p \<in> d_platform ` set gp"
    by blast
  show ?thesis
  proof (cases ?c)
    case True
    with * show ?thesis
      using first_min_platform_mem [of gp p] by (auto simp: best_deal_platform_first_min)
  next
    case False
    with * show ?thesis by simp
  qed
qed

lemmas example_defs = example_df_def example_df_zero_def example_df_names_def example_df_tie_def
  mk_product_def

lemmas deal_defs = identify_best_deals_def deals_of_group_def deal_record_def unique_def
  nunique_def Let_def

lemmas table_defs = create_comparison_table_def comparison_row_of_def representative_def
  mode_values_def populate_def best_deal_platform_of_def best_step_def initial_cols_def
  empty_slot_def

lemma map_sum_Inr_D:
  "map_sum f (map g) t = Inr ys \<Longrightarrow> \<exists>rows. t = Inr rows \<and> length rows = length ys"
  by (cases t) auto

lemma populate_dom:
  assumes "populate c best cols x = Inr cols1"
  shows "d_platform x \<in> dom cols \<and> dom cols1 = dom cols"
proof -
  from assms obtain s s2 where "cols (d_platform x) = Some s" "cols1 = cols(d_platform x \<mapsto> s2)"
    by (auto simp: populate_def Let_def split: option.splits)
  then show ?thesis by (auto simp: insert_absorb)
qed

lemma populate_all_dom:
  "populate_all c best cols gp = Inr cols' \<Longrightarrow> d_platform ` set gp \<subseteq> dom cols \<and> dom cols' = dom cols"
proof (induction gp arbitrary: cols)
  case Nil
  then show ?case by simp
next
  case (Cons x xs)
  from Cons.prems obtain cols1 where 1: "populate c best cols x = Inr cols1"
    and 2: "populate_all c best cols1 xs = Inr cols'"
    by (auto split: sum.splits)
  from populate_dom [OF 1] Cons.IH [OF 2] show ?case by auto
qed

lemma first_min_platform_Some:
  assumes "gp \<noteq> []"
  shows "\<exists>p. first_min_platform gp = Some p"
proof -
  from exists_min_record [OF assms, of d_price_per_100g]
  have "find (\<lambda>d. list_all (\<lambda>e. d_price_per_100g d \<le> d_price_per_100g e) gp) gp \<noteq> None"
    by (auto simp: find_None_iff list_all_iff)
  then show ?thesis by (auto simp: first_min_platform_def)
qed

text \<open>
  Claim C1. The claim says that the table has one row for every product group, the
  groups with a single platform included. The table is built from the deals frame
  (\<open>main_comparison_table\<close>), which has no record of a group that the deal identifier
  excluded (C5), and \<open>create_comparison_table\<close> makes one row per group id found in its
  argument (lemma \<open>create_comparison_table_rows\<close>). On the specification's scenario
  the matched frame has the two groups 0 and 1, group 1 is the local loaf alone, and the
  table has the single row of group 0.
\<close>

theorem single_platform_group_missing:
  "unique (map product_group example_df) = [Some 0, Some 1] \<and>
   map name (group_products_of example_df 1) = [''Local Loaf''] \<and>
   map_sum id (map product_name) (main_comparison_table example_df) = Inr [''Britannia Bread 400g'']"
  by (simp add: main_comparison_table_def example_defs deal_defs table_defs)

text \<open>
  Claim C9, as stated, fails on ties: the two names of the group occur once each, the
  first in row order is "Modern White Bread", and the row's name is "Modern Bread
  White", the smaller of the two in string order.
\<close>

theorem representative_first_row_counterexample:
  "map d_name (identify_best_deals example_df_names) = [''Modern White Bread'', ''Modern Bread White''] \<and>
   spec_first_most_frequent [''Modern White Bread'', ''Modern Bread White''] = Some ''Modern White Bread'' \<and>
   map_sum id (map product_name) (main_comparison_table example_df_names) = Inr [''Modern Bread White'']"
  by (simp add: main_comparison_table_def example_defs deal_defs table_defs
      spec_first_most_frequent_def most_frequent_def)

text \<open>
  Claim C9, amended. In every row of the table, the name is a most frequent name among
  the deal records of the row's group and the brand a most frequent brand, and among
  several most frequent values it is the smallest in string order (\<open>Series.mode()\<close>
  returns the modes sorted, and the code takes the first).
\<close>

theorem representative_least_most_frequent:
  assumes "create_comparison_table deals = Inr rows" and "i < length rows"
  shows "most_frequent (map d_name (table_group deals i)) (product_name (rows ! i)) \<and>
    (\<forall>v. most_frequent (map d_name (table_group deals i)) v \<longrightarrow> product_name (rows ! i) \<le> v) \<and>
    most_frequent (map d_brand (table_group deals i)) (row_brand (rows ! i)) \<and>
    (\<forall>v. most_frequent (map d_brand (table_group deals i)) v \<longrightarrow> row_brand (rows ! i) \<le> v)"
proof -
  let ?gp = "table_group deals i"
  from create_comparison_table_rows [OF assms(1)] assms(2)
  have row: "comparison_row_of ?gp = Inr (rows ! i)"
    and i: "i < length (unique (map d_product_group deals))" by simp_all
  from group_nonempty [OF i] have ne: "map d_name ?gp \<noteq> []" "map d_brand ?gp \<noteq> []" by simp_all
  from comparison_row_of_fields(1,2) [OF row]
    representative_least [OF ne(1)] representative_least [OF ne(2)]
  show ?thesis by blast
qed

text \<open>
  The table of the two-name example exists and has a row 0, to which the amended C9
  applies.
\<close>

theorem representative_least_most_frequent_witness:
  "\<exists>rows. create_comparison_table (identify_best_deals example_df_names) = Inr rows \<and>
     0 < length rows \<and>
     most_frequent (map d_name (table_group (identify_best_deals example_df_names) 0))
       (product_name (rows ! 0)) \<and>
     (most_frequent (map d_name (table_group (identify_best_deals example_df_names) 0))
        ''Modern White Bread'' \<longrightarrow> product_name (rows ! 0) \<le> ''Modern White Bread'')"
proof -
  have "map_sum id (map product_name) (create_comparison_table (identify_best_deals example_df_names))
      = Inr [''Modern Bread White'']"
    by (simp add: example_defs deal_defs table_defs)
  from map_sum_Inr_D [OF this] obtain rows
    where rows: "create_comparison_table (identify_best_deals example_df_names) = Inr rows"
      and l: "length rows = length [''Modern Bread White'']" by blast
  from l have len: "0 < length rows" by simp
  from representative_least_most_frequent [OF rows len] rows len show ?thesis by blast
qed

text \<open>
  Claim C10. In every row of the table at most one platform slot is marked best. The
  row is comparable exactly when its group has at least 2 distinct platforms; in a
  comparable row the marked slot is the slot of the platform of the first record, in
  row order, whose price per 100 g is minimal in the group (such a slot exists, and no
  other slot is marked, also when several platforms tie at the minimum); in a row that
  is not comparable no slot is marked.
\<close>

theorem at_most_one_best_slot:
  assumes "create_comparison_table deals = Inr rows" and "i < length rows"
  shows "(\<forall>p q sp sq. platform_cols (rows ! i) p = Some sp \<and> slot_is_best sp \<and>
             platform_cols (rows ! i) q = Some sq \<and> slot_is_best sq \<longrightarrow> p = q) \<and>
    is_comparable (rows ! i) = (2 \<le> card (d_platform ` set (table_group deals i))) \<and>
    (is_comparable (rows ! i) \<longrightarrow>
       (\<forall>p s. platform_cols (rows ! i) p = Some s \<longrightarrow>
          (slot_is_best s \<longleftrightarrow> first_min_platform (table_group deals i) = Some p)) \<and>
       (\<exists>p s. platform_cols (rows ! i) p = Some s \<and> slot_is_best s)) \<and>
    (\<not> is_comparable (rows ! i) \<longrightarrow>
       (\<forall>p s. platform_cols (rows ! i) p = Some s \<longrightarrow> \<not> slot_is_best s))"
proof -
  let ?gp = "table_group deals i"
  let ?row = "rows ! i"
  from create_comparison_table_rows [OF assms(1)] assms(2)
  have row: "comparison_row_of ?gp = Inr ?row"
    and i: "i < length (unique (map d_product_group deals))" by simp_all
  have best: "slot_is_best s \<longleftrightarrow> is_comparable ?row \<and> first_min_platform ?gp = Some p"
    if "platform_cols ?row p = Some s" for p s
    using row_is_best [OF row that] .
  have 1: "\<forall>p q sp sq. platform_cols ?row p = Some sp \<and> slot_is_best sp \<and>
             platform_cols ?row q = Some sq \<and> slot_is_best sq \<longrightarrow> p = q"
    using best by force
  have 2: "is_comparable ?row = (2 \<le> card (d_platform ` set ?gp))"
    by (rule comparison_row_of_fields(3) [OF row])
  have 3: "\<forall>p s. platform_cols ?row p = Some s \<longrightarrow>
          (slot_is_best s \<longleftrightarrow> first_min_platform ?gp = Some p)" if "is_comparable ?row"
    using best that by blast
  have 4: "\<exists>p s. platform_cols ?row p = Some s \<and> slot_is_best s" if c: "is_comparable ?row"
  proof -
    from first_min_platform_Some [OF group_nonempty [OF i]]
    obtain p where p: "first_min_platform ?gp = Some p" by blast
    from comparison_row_of_fields(5) [OF row]
    have "d_platform ` set ?gp \<subseteq> dom initial_cols" "dom (platform_cols ?row) = dom initial_cols"
      using populate_all_dom by blast+
    with first_min_platform_mem [OF p] obtain s where "platform_cols ?row p = Some s"
      by blast
    with best c p show ?thesis by blast
  qed
  have 5: "\<forall>p s. platform_cols ?row p = Some s \<longrightarrow> \<not> slot_is_best s" if "\<not> is_comparable ?row"
    using best that by blast
  from 1 2 3 4 5 show ?thesis by blast
qed

lemma deals_tie:
  "map (\<lambda>d. (d_product_group d, d_platform d, d_price_per_100g d)) (identify_best_deals example_df_tie) =
     [(0, ''zepto'', 12.5), (0, ''blinkit'', 12.5), (0, ''bbnow'', 13), (1, ''blinkit'', 15), (1, ''blinkit'', 16)]"
  by (simp add: example_defs deal_defs)

text \<open>
  The table of the tie example exists and has two rows: in row 0 zepto and blinkit tie
  at 12.5 and only zepto, the first in row order, is marked; row 1 has deal records of
  one platform only and no slot marked.
\<close>

theorem at_most_one_best_slot_witness:
  "\<exists>rows. create_comparison_table (identify_best_deals example_df_tie) = Inr rows \<and>
     1 < length rows \<and>
     is_comparable (rows ! 0) \<and>
     (\<forall>p s. platform_cols (rows ! 0) p = Some s \<longrightarrow> (slot_is_best s \<longleftrightarrow> p = ''zepto'')) \<and>
     \<not> is_comparable (rows ! 1) \<and>
     (\<forall>p s. platform_cols (rows ! 1) p = Some s \<longrightarrow> \<not> slot_is_best s)"
proof -
  let ?deals = "identify_best_deals example_df_tie"
  have "map_sum id (map product_name) (create_comparison_table ?deals)
      = Inr [''Britannia Bread'', ''Milk Buns'']"
    by (simp add: example_defs deal_defs table_defs)
  from map_sum_Inr_D [OF this] obtain rows
    where rows: "create_comparison_table ?deals = Inr rows"
      and l: "length rows = length [''Britannia Bread'', ''Milk Buns'']" by blast
  from l have len: "0 < length rows" "1 < length rows" by simp_all
  have g0: "2 \<le> card (d_platform ` set (table_group ?deals 0))"
    by (simp add: example_defs deal_defs)
  have g1: "\<not> 2 \<le> card (d_platform ` set (table_group ?deals 1))"
    by (simp add: example_defs deal_defs)
  have m0: "first_min_platform (table_group ?deals 0) = Some ''zepto''"
    by (simp add: example_defs deal_defs first_min_platform_def)
  from at_most_one_best_slot [OF rows len(1)] at_most_one_best_slot [OF rows len(2)]
    rows len g0 g1 m0
  show ?thesis by (intro exI [of _ rows]) auto
qed

section \<open>Properties of the matcher\<close>

lemma extend_group_keys:
  "map fst (extend_group pg g ms) = (if g \<in> fst ` set pg then map fst pg else map fst pg @ [g])"
  by (induction pg) force+

lemma extend_group_distinct:
  "distinct (map fst pg) \<Longrightarrow> distinct (map fst (extend_group pg g ms))"
  by (simp add: extend_group_keys)

lemma extend_group_map_of:
  "map_of (extend_group pg g ms) =
     (map_of pg)(g \<mapsto> (case map_of pg g of None \<Rightarrow> ms | Some l \<Rightarrow> l @ ms))"
  by (induction pg) (auto simp: fun_eq_iff)

lemma product_groups_distinct:
  "distinct (map fst (foldl (match_step sc th U) [] ks))"
proof (induction ks rule: rev_induct)
  case Nil
  show ?case by simp
next
  case (snoc k ks)
  then show ?case
    by (simp add: match_step_def Let_def extend_group_distinct)
qed

lemma product_groups_map_of:
  "map_of (foldl (match_step sc th U) [] ks) g =
     (if \<exists>k \<in> set ks. high_matches sc th U k \<noteq> [] \<and> min_list (high_matches sc th U k) = g
      then Some (concat (map (high_matches sc th U)
             (filter (\<lambda>k. high_matches sc th U k \<noteq> [] \<and> min_list (high_matches sc th U k) = g) ks)))
      else None)"
proof (induction ks rule: rev_induct)
  case Nil
  show ?case by simp
next
  case (snoc k ks)
  show ?case
  proof (cases "high_matches sc th U k \<noteq> [] \<and> min_list (high_matches sc th U k) = g")
    case True
    with snoc show ?thesis
      by (auto simp: match_step_def Let_def extend_group_map_of)
  next
    case False
    with snoc show ?thesis
      by (auto simp: match_step_def Let_def extend_group_map_of)
  qed
qed

lemma group_mapping_snoc:
  "group_mapping_of (pg @ [x]) key =
     (if key \<in> set (snd x) then Some (length pg) else group_mapping_of pg key)"
proof -
  have inner: "foldl (\<lambda>m k. m(k \<mapsto> i)) m l key = (if key \<in> set l then Some i else m key)"
    for m :: "string \<rightharpoonup> nat" and i l
    by (induction l arbitrary: m) auto
  have "zip [0..<length (pg @ [x])] (map snd (pg @ [x])) =
      zip [0..<length pg] (map snd pg) @ [(length pg, snd x)]"
    by simp
  then show ?thesis
    unfolding group_mapping_of_def by (simp add: inner)
qed

lemma group_mapping_Nil [simp]: "group_mapping_of [] key = None"
  by (simp add: group_mapping_of_def)

lemma group_mapping_last:
  "group_mapping_of pg key = Some i \<longleftrightarrow>
     i < length pg \<and> key \<in> set (snd (pg ! i)) \<and>
     (\<forall>j. i < j \<and> j < length pg \<longrightarrow> key \<notin> set (snd (pg ! j)))"
proof (induction pg rule: rev_induct)
  case Nil
  show ?case by simp
next
  case (snoc x pg)
  show ?case
  proof (cases "key \<in> set (snd x)")
    case True
    have "(i < length (pg @ [x]) \<and> key \<in> set (snd ((pg @ [x]) ! i)) \<and>
        (\<forall>j. i < j \<and> j < length (pg @ [x]) \<longrightarrow> key \<notin> set (snd ((pg @ [x]) ! j)))) \<longleftrightarrow> i = length pg"
    proof
      assume a: "i < length (pg @ [x]) \<and> key \<in> set (snd ((pg @ [x]) ! i)) \<and>
        (\<forall>j. i < j \<and> j < length (pg @ [x]) \<longrightarrow> key \<notin> set (snd ((pg @ [x]) ! j)))"
      show "i = length pg"
      proof (rule ccontr)
        assume "i \<noteq> length pg"
        with a have "i < length pg" by simp
        with a have "key \<notin> set (snd ((pg @ [x]) ! length pg))"
          by (metis length_append_singleton lessI)
        with True show False by simp
      qed
    next
      assume "i = length pg"
      with True show "i < length (pg @ [x]) \<and> key \<in> set (snd ((pg @ [x]) ! i)) \<and>
        (\<forall>j. i < j \<and> j < length (pg @ [x]) \<longrightarrow> key \<notin> set (snd ((pg @ [x]) ! j)))"
        by auto
    qed
    with True show ?thesis by (auto simp: group_mapping_snoc)
  next
    case False
    have "(i < length (pg @ [x]) \<and> key \<in> set (snd ((pg @ [x]) ! i)) \<and>
        (\<forall>j. i < j \<and> j < length (pg @ [x]) \<longrightarrow> key \<notin> set (snd ((pg @ [x]) ! j)))) \<longleftrightarrow>
        (i < length pg \<and> key \<in> set (snd (pg ! i)) \<and>
        (\<forall>j. i < j \<and> j < length pg \<longrightarrow> key \<notin> set (snd (pg ! j))))"
      (is "?L \<longleftrightarrow> ?R")
    proof
      assume l: ?L
      with False have i: "i < length pg"
        by (cases "i = length pg") auto
      with l have "key \<in> set (snd (pg ! i))" by (simp add: nth_append)
      moreover have "key \<notin> set (snd (pg ! j))" if "i < j \<and> j < length pg" for j
        using l that by (auto simp: nth_append dest!: spec [of _ j])
      ultimately show ?R using i by blast
    next
      assume r: ?R
      then have "key \<notin> set (snd ((pg @ [x]) ! j))" if "i < j \<and> j < length (pg @ [x])" for j
        using that False by (cases "j = length pg") (auto simp: nth_append)
      with r show ?L by (auto simp: nth_append)
    qed
    with False snoc show ?thesis by (simp add: group_mapping_snoc)
  qed
qed

lemma group_mapping_dom:
  "dom (group_mapping_of pg) = (\<Union>x \<in> set pg. set (snd x))"
proof (induction pg rule: rev_induct)
  case Nil
  show ?case by (auto simp: dom_def)
next
  case (snoc x pg)
  have "dom (group_mapping_of (pg @ [x])) = set (snd x) \<union> dom (group_mapping_of pg)"
    by (auto simp: dom_def group_mapping_snoc)
  with snoc show ?case by auto
qed

lemma self_in_high_matches:
  assumes "distinct ks" and "k \<in> set ks" and "th \<le> sc k k"
    and "card {x \<in> set ks. x \<noteq> k \<and> sc k k \<le> sc k x} < 10"
  shows "k \<in> set (high_matches sc th ks k)"
proof -
  let ?f = "\<lambda>m :: string \<times> nat. - int (snd m)"
  let ?ps = "map (\<lambda>c. (c, sc k c)) ks"
  let ?ys = "sort_key ?f ?ps"
  let ?p = "(k, sc k k)"
  have dist: "distinct ?ys"
    using assms(1) by (simp add: distinct_map inj_on_def)
  have "?p \<in> set ?ys" using assms(2) by auto
  then obtain us vs where ys: "?ys = us @ ?p # vs"
    by (meson split_list)
  have "sorted (map ?f ?ys)" by (rule sorted_sort_key)
  then have "sorted (map ?f us @ ?f ?p # map ?f vs)"
    unfolding ys by simp
  then have le: "\<forall>u \<in> set us. ?f u \<le> ?f ?p"
    by (simp add: sorted_append)
  have "set ?ys = set ?ps" by (rule set_sort)
  then have sub: "set us \<subseteq> set ?ps"
    unfolding ys by auto
  have "distinct (us @ ?p # vs)" using dist unfolding ys .
  then have notp: "?p \<notin> set us" and dus: "distinct us" by simp_all
  have "fst ` set us \<subseteq> {x \<in> set ks. x \<noteq> k \<and> sc k k \<le> sc k x}"
  proof
    fix x assume "x \<in> fst ` set us"
    then obtain s where u: "(x, s) \<in> set us" by auto
    with sub have ux: "x \<in> set ks" "s = sc k x" by auto
    from notp u ux(2) have "x \<noteq> k" by blast
    moreover from le u have "- int s \<le> - int (sc k k)" by force
    then have "sc k k \<le> sc k x" using ux(2) by simp
    ultimately show "x \<in> {x \<in> set ks. x \<noteq> k \<and> sc k k \<le> sc k x}" using ux by simp
  qed
  then have "card (fst ` set us) \<le> card {x \<in> set ks. x \<noteq> k \<and> sc k k \<le> sc k x}"
    by (intro card_mono) auto
  moreover have "inj_on fst (set us)"
  proof (rule inj_onI)
    fix u v assume uv: "u \<in> set us" "v \<in> set us" "fst u = fst v"
    with sub have "snd u = sc k (fst u)" "snd v = sc k (fst v)" by auto
    with uv(3) show "u = v" by (simp add: prod_eq_iff)
  qed
  then have "card (fst ` set us) = card (set us)" by (rule card_image)
  moreover have "card (set us) = length us" using dus by (rule distinct_card)
  ultimately have "length us < 10" using assms(4) by simp
  then have "?p \<in> set (take 10 (us @ ?p # vs))"
    by (simp add: take_Cons')
  then have "?p \<in> set (take 10 ?ys)"
    unfolding ys .
  with assms(3) have "?p \<in> set (filter (\<lambda>m. th \<le> snd m) (take 10 ?ys))" by simp
  then have "fst ?p \<in> fst ` set (filter (\<lambda>m. th \<le> snd m) (take 10 ?ys))" by (rule imageI)
  then show ?thesis
    by (simp add: high_matches_def process_extract_def)
qed

lemma product_groups_members:
  "(\<Union>x \<in> set (foldl (match_step sc th U) [] ks). set (snd x)) =
     (\<Union>k \<in> set ks. set (high_matches sc th U k))"
proof (induction ks rule: rev_induct)
  case Nil
  show ?case by simp
next
  case (snoc k ks)
  have ext: "(\<Union>x \<in> set (extend_group pg g ms). set (snd x)) = (\<Union>x \<in> set pg. set (snd x)) \<union> set ms"
    for pg g ms
  proof (induction pg)
    case Nil
    show ?case by simp
  next
    case (Cons a pg)
    obtain g' l where a: "a = (g', l)" by (cases a)
    show ?case
      unfolding a by (cases "g' = g") (simp_all add: Cons.IH Un_ac)
  qed
  from snoc show ?case
    by (auto simp: match_step_def Let_def ext)
qed

lemma scores_overlap:
  "token_sort_ratio ''amul_breadmax'' ''amul_breadmax'' = 100"
  "token_sort_ratio ''amul_breadmax'' ''amul_breadtop'' = 77"
  "token_sort_ratio ''amul_breadmax'' ''amul_breadx'' = 92"
  "token_sort_ratio ''amul_breadtop'' ''amul_breadmax'' = 77"
  "token_sort_ratio ''amul_breadtop'' ''amul_breadtop'' = 100"
  "token_sort_ratio ''amul_breadtop'' ''amul_breadx'' = 83"
  "token_sort_ratio ''amul_breadx'' ''amul_breadmax'' = 92"
  "token_sort_ratio ''amul_breadx'' ''amul_breadtop'' = 83"
  "token_sort_ratio ''amul_breadx'' ''amul_breadx'' = 100"
  by code_simp+

lemma keys_overlap:
  "unique (map product_key example_df_overlap) = [''amul_breadmax'', ''amul_breadtop'', ''amul_breadx'']"
  by (simp add: example_df_overlap_def unique_def)

lemma high_matches_overlap:
  "high_matches token_sort_ratio 80 [''amul_breadmax'', ''amul_breadtop'', ''amul_breadx''] ''amul_breadmax''
     = [''amul_breadmax'', ''amul_breadx'']"
  "high_matches token_sort_ratio 80 [''amul_breadmax'', ''amul_breadtop'', ''amul_breadx''] ''amul_breadtop''
     = [''amul_breadtop'', ''amul_breadx'']"
  "high_matches token_sort_ratio 80 [''amul_breadmax'', ''amul_breadtop'', ''amul_breadx''] ''amul_breadx''
     = [''amul_breadx'', ''amul_breadmax'', ''amul_breadtop'']"
  by (simp_all add: high_matches_def process_extract_def scores_overlap)

lemma product_groups_overlap:
  "product_groups_of token_sort_ratio 80 [''amul_breadmax'', ''amul_breadtop'', ''amul_breadx''] =
     [(''amul_breadmax'', [''amul_breadmax'', ''amul_breadx'', ''amul_breadx'', ''amul_breadmax'', ''amul_breadtop'']),
      (''amul_breadtop'', [''amul_breadtop'', ''amul_breadx''])]"
  by (simp add: product_groups_of_def match_step_def high_matches_overlap)

lemma overlap_example:
  "unique (map product_key example_df_overlap) = [''amul_breadmax'', ''amul_breadtop'', ''amul_breadx''] \<and>
   map (high_matches token_sort_ratio 80 [''amul_breadmax'', ''amul_breadtop'', ''amul_breadx''])
     [''amul_breadmax'', ''amul_breadtop'', ''amul_breadx''] =
     [[''amul_breadmax'', ''amul_breadx''], [''amul_breadtop'', ''amul_breadx''],
      [''amul_breadx'', ''amul_breadmax'', ''amul_breadtop'']] \<and>
   spec_identifier_of token_sort_ratio 80 [''amul_breadmax'', ''amul_breadtop'', ''amul_breadx'']
     ''amul_breadx'' = Some ''amul_breadmax'' \<and>
   map fst (product_groups_of token_sort_ratio 80 [''amul_breadmax'', ''amul_breadtop'', ''amul_breadx''])
     = [''amul_breadmax'', ''amul_breadtop''] \<and>
   map product_group (fuzzy_match_products token_sort_ratio 80 example_df_overlap) =
     [Some 0, Some 1, Some 1]"
proof -
  have "map product_group (fuzzy_match_products token_sort_ratio 80 example_df_overlap) =
     [Some 0, Some 1, Some 1]"
    unfolding fuzzy_match_products_def Let_def keys_overlap product_groups_overlap
    by (simp add: example_df_overlap_def group_mapping_of_def)
  moreover have "spec_identifier_of token_sort_ratio 80 [''amul_breadmax'', ''amul_breadtop'', ''amul_breadx'']
     ''amul_breadx'' = Some ''amul_breadmax''"
    by (simp add: spec_identifier_of_def high_matches_overlap)
  ultimately show ?thesis
    by (simp add: keys_overlap high_matches_overlap product_groups_overlap)
qed

lemma sort_key_const: "\<forall>x \<in> set xs. f x = c \<Longrightarrow> sort_key f xs = xs"
  by (induction xs) (auto simp: insort_is_Cons)

lemma high_matches_all_tied:
  assumes "\<forall>x \<in> set ks. sc k x = s" and "th \<le> s"
  shows "high_matches sc th ks k = take 10 ks"
proof -
  have "sort_key (\<lambda>m. - int (snd m)) (map (\<lambda>c. (c, sc k c)) ks) = map (\<lambda>c. (c, sc k c)) ks"
    using assms(1) by (intro sort_key_const [where c = "- int s"]) auto
  moreover have "filter (\<lambda>m. th \<le> snd m) (take 10 (map (\<lambda>c. (c, sc k c)) ks)) =
      take 10 (map (\<lambda>c. (c, sc k c)) ks)"
    using assms by (auto simp: filter_id_conv dest!: in_set_takeD)
  ultimately show ?thesis
    by (simp add: high_matches_def process_extract_def take_map o_def)
qed

lemma keys_permutations:
  "unique (map product_key example_df_permutations) =
     [''amul_bread big hot new soft'', ''amul_bread big hot soft new'', ''amul_bread big new hot soft'',
      ''amul_bread big new soft hot'', ''amul_bread big soft hot new'', ''amul_bread big soft new hot'',
      ''amul_bread hot big new soft'', ''amul_bread hot big soft new'', ''amul_bread hot new big soft'',
      ''amul_bread hot new soft big'', ''amul_bread hot soft big new'']"
  by (simp add: example_df_permutations_def mk_amul_def unique_def)

lemma sorted_permutations:
  "\<forall>k \<in> set (unique (map product_key example_df_permutations)).
     process_and_sort k = ''amul_bread big hot new soft''"
  unfolding keys_permutations by code_simp

lemma scores_permutations:
  assumes "k \<in> set (unique (map product_key example_df_permutations))"
    and "x \<in> set (unique (map product_key example_df_permutations))"
  shows "token_sort_ratio k x = 100"
proof -
  have "ratio ''amul_bread big hot new soft'' ''amul_bread big hot new soft'' = 100"
    by code_simp
  moreover from assms sorted_permutations
  have "process_and_sort k = ''amul_bread big hot new soft''"
    "process_and_sort x = ''amul_bread big hot new soft''" by blast+
  ultimately show ?thesis
    unfolding token_sort_ratio_def by (simp only:)
qed

lemma last_permutation_unmatched:
  "product_group (last (fuzzy_match_products token_sort_ratio 80 example_df_permutations)) = None"
proof -
  let ?ks = "unique (map product_key example_df_permutations)"
  let ?pg = "product_groups_of token_sort_ratio 80 ?ks"
  have hm: "high_matches token_sort_ratio 80 ?ks k = take 10 ?ks" if "k \<in> set ?ks" for k
    using that scores_permutations by (intro high_matches_all_tied [where s = 100]) simp_all
  have "dom (group_mapping_of ?pg) = (\<Union>k \<in> set ?ks. set (high_matches token_sort_ratio 80 ?ks k))"
    unfolding product_groups_of_def group_mapping_dom product_groups_members ..
  also have "\<dots> = (\<Union>k \<in> set ?ks. set (take 10 ?ks))"
    using hm by simp
  also have "\<dots> = set (take 10 ?ks)"
    unfolding keys_permutations by simp
  finally have "''amul_bread hot soft big new'' \<notin> dom (group_mapping_of ?pg)"
    unfolding keys_permutations by simp
  then have "group_mapping_of ?pg ''amul_bread hot soft big new'' = None"
    by blast
  moreover have "product_group (last (fuzzy_match_products token_sort_ratio 80 example_df_permutations)) =
      group_mapping_of ?pg ''amul_bread hot soft big new''"
    by (simp add: fuzzy_match_products_def Let_def last_map example_df_permutations_def mk_amul_def)
  ultimately show ?thesis by simp
qed

text \<open>
  Claim C3, as stated, fails in parts (b) and (c). Part (b): of the three keys of the
  first example the last one, "amul_breadx", is in all three match-sets; the match-set
  processed last is its own, whose smallest key is "amul_breadmax", the identifier of
  group 0 (this is what the specification's mapping gives it); the code assigns it group
  1, the group of the identifier "amul_breadtop", because groups are numbered and written
  in the order in which their identifiers were first created, and the later match-set
  only extends the older group 0. Part (c): the eleven keys of the second example score
  100 against each other; every match-set is cut to the first ten of them, so the last
  key, although it scores 100 against itself, is in no match-set and its record gets no
  group id.
\<close>

theorem fuzzy_match_counterexample:
  "unique (map product_key example_df_overlap) = [''amul_breadmax'', ''amul_breadtop'', ''amul_breadx''] \<and>
   high_matches token_sort_ratio 80 [''amul_breadmax'', ''amul_breadtop'', ''amul_breadx'']
     ''amul_breadx'' = [''amul_breadx'', ''amul_breadmax'', ''amul_breadtop''] \<and>
   spec_identifier_of token_sort_ratio 80 [''amul_breadmax'', ''amul_breadtop'', ''amul_breadx'']
     ''amul_breadx'' = Some ''amul_breadmax'' \<and>
   map fst (product_groups_of token_sort_ratio 80 [''amul_breadmax'', ''amul_breadtop'', ''amul_breadx''])
     = [''amul_breadmax'', ''amul_breadtop''] \<and>
   map product_group (fuzzy_match_products token_sort_ratio 80 example_df_overlap) =
     [Some 0, Some 1, Some 1] \<and>
   product_key (last example_df_permutations) = ''amul_bread hot soft big new'' \<and>
   token_sort_ratio ''amul_bread hot soft big new'' ''amul_bread hot soft big new'' = 100 \<and>
   product_group (last (fuzzy_match_products token_sort_ratio 80 example_df_permutations)) = None"
proof -
  have k: "product_key (last example_df_permutations) = ''amul_bread hot soft big new''"
    by (simp add: example_df_permutations_def mk_amul_def)
  have m: "''amul_bread hot soft big new'' \<in> set (unique (map product_key example_df_permutations))"
    unfolding keys_permutations by simp
  have s: "token_sort_ratio ''amul_bread hot soft big new'' ''amul_bread hot soft big new'' = 100"
    using m m by (rule scores_permutations)
  from overlap_example k s last_permutation_unmatched show ?thesis
    by simp
qed

text \<open>
  Claim C3, amended. For the distinct keys \<open>ks\<close> of a frame, in order of discovery, and
  the groups \<open>pg\<close> the matcher builds from them, numbered in order of creation:
  (a) the identifier of every group is the smallest key of a match-set whose keys are all
  members of the group, and every non-empty match-set has such a group;
  (b) a record's group id is the number of the last group, in order of creation, that has
  the record's key among its members;
  (c) a record whose key scores at least the threshold against itself, and has fewer
  than 10 other distinct keys scoring at least as high against it, has its key in the
  key's own match-set and is assigned a group id.
\<close>

theorem fuzzy_match_groups:
  assumes ks: "ks = unique (map product_key df)" and pg: "pg = product_groups_of sc th ks"
  shows "(\<forall>i<length pg. \<exists>k \<in> set ks. high_matches sc th ks k \<noteq> [] \<and>
            fst (pg ! i) = Min (set (high_matches sc th ks k)) \<and>
            set (high_matches sc th ks k) \<subseteq> set (snd (pg ! i))) \<and>
    (\<forall>k \<in> set ks. high_matches sc th ks k \<noteq> [] \<longrightarrow>
       (\<exists>i<length pg. fst (pg ! i) = Min (set (high_matches sc th ks k)) \<and>
          set (high_matches sc th ks k) \<subseteq> set (snd (pg ! i)))) \<and>
    (\<forall>q \<in> set (fuzzy_match_products sc th df). \<forall>i.
       product_group q = Some i \<longleftrightarrow>
         i < length pg \<and> product_key q \<in> set (snd (pg ! i)) \<and>
         (\<forall>j. i < j \<and> j < length pg \<longrightarrow> product_key q \<notin> set (snd (pg ! j)))) \<and>
    (\<forall>q \<in> set (fuzzy_match_products sc th df).
       th \<le> sc (product_key q) (product_key q) \<and>
       card {x \<in> set ks. x \<noteq> product_key q \<and>
               sc (product_key q) (product_key q) \<le> sc (product_key q) x} < 10
       \<longrightarrow> product_key q \<in> set (high_matches sc th ks (product_key q)) \<and>
           product_group q \<noteq> None)"
proof -
  let ?hm = "high_matches sc th ks"
  let ?P = "\<lambda>g k. ?hm k \<noteq> [] \<and> min_list (?hm k) = g"
  have pg': "pg = foldl (match_step sc th ks) [] ks"
    by (simp add: pg product_groups_of_def)
  have dist: "distinct (map fst pg)"
    unfolding pg' by (rule product_groups_distinct)
  have mo: "map_of pg g =
      (if \<exists>k \<in> set ks. ?P g k then Some (concat (map ?hm (filter (?P g) ks))) else None)" for g
    unfolding pg' by (rule product_groups_map_of)
  have a: "\<exists>k \<in> set ks. ?hm k \<noteq> [] \<and> fst (pg ! i) = Min (set (?hm k)) \<and>
      set (?hm k) \<subseteq> set (snd (pg ! i))" if i: "i < length pg" for i
  proof -
    obtain g l where gl: "pg ! i = (g, l)" by (cases "pg ! i")
    with i have "(g, l) \<in> set pg" by (metis nth_mem)
    with dist have "map_of pg g = Some l" by simp
    with mo [of g] obtain k where k: "k \<in> set ks" "?P g k"
      and l: "l = concat (map ?hm (filter (?P g) ks))"
      by (auto split: if_splits)
    from k have "set (?hm k) \<subseteq> set l" unfolding l by auto
    moreover from k have "g = Min (set (?hm k))"
      using min_list_Min [of "?hm k"] by auto
    ultimately show ?thesis using k gl by auto
  qed
  have b: "\<exists>i<length pg. fst (pg ! i) = Min (set (?hm k)) \<and> set (?hm k) \<subseteq> set (snd (pg ! i))"
    if k: "k \<in> set ks" "?hm k \<noteq> []" for k
  proof -
    let ?g = "min_list (?hm k)"
    from k have "map_of pg ?g = Some (concat (map ?hm (filter (?P ?g) ks)))"
      using mo [of ?g] by auto
    then have "(?g, concat (map ?hm (filter (?P ?g) ks))) \<in> set pg"
      by (rule map_of_SomeD)
    then obtain i where i: "i < length pg" "pg ! i = (?g, concat (map ?hm (filter (?P ?g) ks)))"
      by (auto simp: in_set_conv_nth)
    from k have sub: "set (?hm k) \<subseteq> set (concat (map ?hm (filter (?P ?g) ks)))" by auto
    from k(2) have m: "?g = Min (set (?hm k))" by (rule min_list_Min)
    have "fst (pg ! i) = Min (set (?hm k))" unfolding i(2) using m by simp
    moreover have "set (?hm k) \<subseteq> set (snd (pg ! i))" unfolding i(2) using sub by simp
    ultimately show ?thesis using i(1) by blast
  qed
  have grp: "product_group q = group_mapping_of pg (product_key q)"
    and key: "product_key q \<in> set ks"
    if "q \<in> set (fuzzy_match_products sc th df)" for q
    using that by (auto simp: fuzzy_match_products_def Let_def ks pg set_unique)
  have c: "product_group q = Some i \<longleftrightarrow>
         i < length pg \<and> product_key q \<in> set (snd (pg ! i)) \<and>
         (\<forall>j. i < j \<and> j < length pg \<longrightarrow> product_key q \<notin> set (snd (pg ! j)))"
    if "q \<in> set (fuzzy_match_products sc th df)" for q i
    using grp [OF that] by (simp add: group_mapping_last)
  have d: "product_key q \<in> set (?hm (product_key q)) \<and> product_group q \<noteq> None"
    if q: "q \<in> set (fuzzy_match_products sc th df)"
      and s: "th \<le> sc (product_key q) (product_key q) \<and>
       card {x \<in> set ks. x \<noteq> product_key q \<and>
               sc (product_key q) (product_key q) \<le> sc (product_key q) x} < 10" for q
  proof -
    have "distinct ks" by (simp add: ks unique_def)
    with key [OF q] s have self: "product_key q \<in> set (?hm (product_key q))"
      by (intro self_in_high_matches) simp_all
    with key [OF q] have "product_key q \<in> (\<Union>k \<in> set ks. set (?hm k))" by blast
    then have "product_key q \<in> dom (group_mapping_of pg)"
      unfolding pg' group_mapping_dom product_groups_members .
    with grp [OF q] self show ?thesis by auto
  qed
  from a b c d show ?thesis by blast
qed

text \<open>
  Part (c) of the amended C3 on the first example: the key "amul_breadx" scores 100
  against itself, no other key scores as high against it, and its record has a group id.
\<close>

theorem fuzzy_match_groups_witness:
  "80 \<le> token_sort_ratio ''amul_breadx'' ''amul_breadx'' \<and>
   card {x \<in> set (unique (map product_key example_df_overlap)). x \<noteq> ''amul_breadx'' \<and>
           token_sort_ratio ''amul_breadx'' ''amul_breadx'' \<le> token_sort_ratio ''amul_breadx'' x} < 10 \<and>
   product_key (fuzzy_match_products token_sort_ratio 80 example_df_overlap ! 2) = ''amul_breadx'' \<and>
   ''amul_breadx'' \<in> set (high_matches token_sort_ratio 80
      (unique (map product_key example_df_overlap)) ''amul_breadx'') \<and>
   product_group (fuzzy_match_products token_sort_ratio 80 example_df_overlap ! 2) \<noteq> None"
proof -
  let ?q = "fuzzy_match_products token_sort_ratio 80 example_df_overlap ! 2"
  have s: "80 \<le> token_sort_ratio ''amul_breadx'' ''amul_breadx''"
    by (simp add: scores_overlap)
  have e: "{x \<in> set (unique (map product_key example_df_overlap)). x \<noteq> ''amul_breadx'' \<and>
           token_sort_ratio ''amul_breadx'' ''amul_breadx'' \<le> token_sort_ratio ''amul_breadx'' x} = {}"
    unfolding keys_overlap by (auto simp: scores_overlap)
  have c: "card {x \<in> set (unique (map product_key example_df_overlap)). x \<noteq> ''amul_breadx'' \<and>
           token_sort_ratio ''amul_breadx'' ''amul_breadx'' \<le> token_sort_ratio ''amul_breadx'' x} < 10"
    unfolding e by simp
  have "2 < length (fuzzy_match_products token_sort_ratio 80 example_df_overlap)"
    by (simp add: fuzzy_match_products_def Let_def example_df_overlap_def)
  then have q: "?q \<in> set (fuzzy_match_products token_sort_ratio 80 example_df_overlap)"
    by (rule nth_mem)
  have k: "product_key ?q = ''amul_breadx''"
    by (simp add: fuzzy_match_products_def Let_def example_df_overlap_def)
  from fuzzy_match_groups [OF refl refl, of token_sort_ratio 80 example_df_overlap] q
  have "80 \<le> token_sort_ratio (product_key ?q) (product_key ?q) \<and>
       card {x \<in> set (unique (map product_key example_df_overlap)). x \<noteq> product_key ?q \<and>
               token_sort_ratio (product_key ?q) (product_key ?q) \<le> token_sort_ratio (product_key ?q) x} < 10
       \<longrightarrow> product_key ?q \<in> set (high_matches token_sort_ratio 80
               (unique (map product_key example_df_overlap)) (product_key ?q)) \<and>
           product_group ?q \<noteq> None"
    by blast
  with s c have "''amul_breadx'' \<in> set (high_matches token_sort_ratio 80
               (unique (map product_key example_df_overlap)) ''amul_breadx'') \<and>
           product_group ?q \<noteq> None"
    unfolding k by blast
  with s c k show ?thesis by blast
qed

end
